theory Spec2Isabelle
  imports Main "HOL-Library.AList"
begin

section \<open>Data model\<close>

text \<open>
  The installation planner of the repository exists in three revisions:
  \<^verbatim>\<open>construct-plan.ts\<close> (the walk alone), the unnamed file \<^verbatim>\<open>part_000\<close> (the walk, a
  usage ledger and the hoisting pass) and \<^verbatim>\<open>construct-plan-v3.ts\<close> (the walk with a cache
  file). \<^verbatim>\<open>part_000\<close> is modelled under the source's names; the functions of the other two
  carry the suffix \<open>_v1\<close> or \<open>_v3\<close>.

  JavaScript objects and \<^verbatim>\<open>Map\<close>s are association lists in enumeration order
  (\<^verbatim>\<open>Object.entries\<close>, \<^verbatim>\<open>Map.entries\<close>): \<open>map_of\<close> is \<^verbatim>\<open>get\<close>, \<open>AList.update\<close> is
  \<^verbatim>\<open>set\<close> (an existing key keeps its place, a new key goes to the end). \<^verbatim>\<open>undefined\<close> is
  \<open>None\<close>.
\<close>

record Dependency =
  dep_name :: string
  dep_version :: string

record DependencyInstallation =
  name :: string
  version :: "string option"
  parentDirectory :: "string option"

type_synonym InstallationPlan = "DependencyInstallation list"

text \<open>The value type of \<^verbatim>\<open>dependencyMap\<close>; \<^verbatim>\<open>semver.validRange\<close> may store \<^verbatim>\<open>null\<close> in the range.\<close>

record PendingDependency =
  pending_name :: string
  versionRange :: "string option"
  pending_parentDirectory :: "string option"

record PackageVersionInfo =
  count :: nat
  parentDirectories :: "string list"

text \<open>
  A registry answer, typed as the cast at \<^verbatim>\<open>part_000\<close> line 47 reads it: per version the
  \<^verbatim>\<open>dependencies\<close> object (which may be absent) and, kept opaque, every other field of the
  version and of the document (description, dist URLs and so on) as field name and JSON text.
\<close>

record VersionData =
  dependencies :: "(string \<times> string) list option"
  otherVersionFields :: "(string \<times> string) list"

record PackageData =
  versions :: "(string \<times> VersionData) list"
  otherPackageFields :: "(string \<times> string) list"

datatype FetchResult = NetworkFailure | Response nat PackageData

type_synonym Registry = "string \<Rightarrow> FetchResult"

datatype PlanError =
    FetchRejected string
  | FetchFailed string
  | VersionNotFound string
  | TypeError

text \<open>
  How a call ends: it returns, it throws, or the walk is cut off because the dependency
  graph is deeper than the fuel (the source recurses without bound on a cyclic registry).
  The functions return the outcome together with the state reached, since a throw does
  not undo what the call has written.
\<close>

datatype Outcome = Returned | Threw PlanError | OutOfFuel

text \<open>
  The two npm libraries the code calls are outside the repository and enter as parameters:
  \<^verbatim>\<open>semver.satisfies\<close> (false on an unparsable version or range), the strict order
  \<^verbatim>\<open>semver.lt\<close>, \<^verbatim>\<open>semver.validRange\<close> and \<^verbatim>\<open>path.join\<close>.
\<close>

record Libraries =
  semver_satisfies :: "string \<Rightarrow> string \<Rightarrow> bool"
  semver_lt :: "string \<Rightarrow> string \<Rightarrow> bool"
  semver_validRange :: "string \<Rightarrow> string option"
  path_join :: "string list \<Rightarrow> string"

text \<open>
  The state of one call of \<^verbatim>\<open>constructInstallationPlan\<close>. Two fields are history variables
  that the code never reads: \<open>registryRequests\<close> lists the package names passed to
  \<^verbatim>\<open>fetch\<close> (the \<^verbatim>\<open>console.log\<close> before each request prints the same), and \<open>sightings\<close> lists
  every call of \<^verbatim>\<open>processDependency\<close> as its slot key and dependency, oldest first, so
  that \<open>map_of (sightings st) k\<close> is the dependency at the first sighting of slot \<open>k\<close>.
\<close>

record PlannerState =
  installationPlan :: InstallationPlan
  dependencyMap :: "(string \<times> PendingDependency) list"
  packageInfoCache :: "(string \<times> PackageData) list"
  registryRequests :: "string list"
  sightings :: "(string \<times> Dependency) list"

record HoistingState = PlannerState +
  versionUsageCount :: "(string \<times> PackageVersionInfo) list"

section \<open>The planner of part_000\<close>

subsection \<open>getCachedPackageInfo\<close>

definition relevantData :: "PackageData \<Rightarrow> PackageData" where
  "relevantData allData =
     \<lparr>versions = map (\<lambda>(k, vd).
          (k, \<lparr>dependencies = dependencies vd, otherVersionFields = []\<rparr>)) (versions allData),
      otherPackageFields = []\<rparr>"

definition getCachedPackageInfo ::
  "Registry \<Rightarrow> string \<Rightarrow> 'a PlannerState_scheme \<Rightarrow> (PlanError + PackageData) \<times> 'a PlannerState_scheme" where
  "getCachedPackageInfo registry packageName st =
     (case map_of (packageInfoCache st) packageName of
        Some info \<Rightarrow> (Inr info, st)
      | None \<Rightarrow>
          (let st1 = st\<lparr>registryRequests := registryRequests st @ [packageName]\<rparr> in
           case registry packageName of
             NetworkFailure \<Rightarrow> (Inl (FetchRejected packageName), st1)
           | Response status allData \<Rightarrow>
               if status \<noteq> 200 then (Inl (FetchFailed packageName), st1)
               else (Inr (relevantData allData),
                     st1\<lparr>packageInfoCache :=
                       AList.update packageName (relevantData allData) (packageInfoCache st1)\<rparr>)))"

subsection \<open>resolveVersion\<close>

text \<open>
  \<^verbatim>\<open>semver.maxSatisfying\<close> as the library implements it: a left-to-right scan that keeps the
  greatest version accepted by the range.
\<close>

definition maxSatisfyingStep :: "Libraries \<Rightarrow> string \<Rightarrow> string option \<Rightarrow> string \<Rightarrow> string option" where
  "maxSatisfyingStep lib rng mx v =
     (if semver_satisfies lib v rng
      then (case mx of None \<Rightarrow> Some v
            | Some m \<Rightarrow> if semver_lt lib m v then Some v else mx)
      else mx)"

definition maxSatisfying :: "Libraries \<Rightarrow> string list \<Rightarrow> string \<Rightarrow> string option" where
  "maxSatisfying lib vs rng = foldl (maxSatisfyingStep lib rng) None vs"

text \<open>\<^verbatim>\<open>!maxSatisfyingVersion\<close> holds for \<^verbatim>\<open>null\<close> and for the empty string.\<close>

definition resolveVersion :: "Libraries \<Rightarrow> string list \<Rightarrow> string \<Rightarrow> PlanError + string" where
  "resolveVersion lib vs rng =
     (case maxSatisfying lib vs rng of
        None \<Rightarrow> Inl (VersionNotFound rng)
      | Some maxSatisfyingVersion \<Rightarrow>
          if maxSatisfyingVersion = [] then Inl (VersionNotFound rng)
          else Inr maxSatisfyingVersion)"

subsection \<open>processDependency\<close>

text \<open>\<^verbatim>\<open>parentDirectory || 'root'\<close>: \<^verbatim>\<open>undefined\<close> and the empty string are falsy.\<close>

definition orRoot :: "string option \<Rightarrow> string" where
  "orRoot parentDir =
     (case parentDir of None \<Rightarrow> ''root'' | Some d \<Rightarrow> if d = [] then ''root'' else d)"

definition depKeyOf :: "string option \<Rightarrow> string \<Rightarrow> string" where
  "depKeyOf parentDir nm = orRoot parentDir @ ''##'' @ nm"

text \<open>A template literal prints \<^verbatim>\<open>null\<close> as the text \<^verbatim>\<open>null\<close>.\<close>

definition rangeText :: "string option \<Rightarrow> string" where
  "rangeText r = (case r of None \<Rightarrow> ''null'' | Some s \<Rightarrow> s)"

text \<open>The history variable \<open>sightings\<close> gains the call.\<close>

definition recordSighting ::
  "string \<Rightarrow> Dependency \<Rightarrow> 'a PlannerState_scheme \<Rightarrow> 'a PlannerState_scheme" where
  "recordSighting depKey dep st = st\<lparr>sightings := sightings st @ [(depKey, dep)]\<rparr>"

text \<open>
  Lines 83 to 86, the branch of a slot key that \<^verbatim>\<open>dependencyMap\<close> already has; \<open>existing\<close> is
  the value that \<^verbatim>\<open>dependencyMap.get(depKey)\<close> returns.
\<close>

definition mergeVersionRanges ::
  "Libraries \<Rightarrow> string \<Rightarrow> PendingDependency \<Rightarrow> Dependency \<Rightarrow> 'a PlannerState_scheme
     \<Rightarrow> 'a PlannerState_scheme" where
  "mergeVersionRanges lib depKey existing dep st =
     st\<lparr>dependencyMap :=
          AList.update depKey
            (existing\<lparr>versionRange :=
               semver_validRange lib (rangeText (versionRange existing) @ '' || '' @ dep_version dep)\<rparr>)
            (dependencyMap st)\<rparr>"

text \<open>Lines 108 to 114, the usage ledger.\<close>

definition trackVersionUsage ::
  "string \<Rightarrow> string \<Rightarrow> string option \<Rightarrow> (string \<times> PackageVersionInfo) list
     \<Rightarrow> (string \<times> PackageVersionInfo) list" where
  "trackVersionUsage nm resolvedVersion parentDir ledger =
     (let versionCountKey = nm @ ''@'' @ resolvedVersion;
          usageInfo = (case map_of ledger versionCountKey of
                         None \<Rightarrow> \<lparr>count = 0, parentDirectories = []\<rparr>
                       | Some u \<Rightarrow> u)
      in AList.update versionCountKey
           (usageInfo\<lparr>count := count usageInfo + 1,
                      parentDirectories := parentDirectories usageInfo @ [orRoot parentDir]\<rparr>)
           ledger)"

text \<open>
  Lines 89 to 121, the first sighting of a slot up to the push onto the plan: the result is
  the \<^verbatim>\<open>dependencies\<close> object of the resolved version, whose entries the loop at line 125
  then walks.
\<close>

definition resolveDependency ::
  "Libraries \<Rightarrow> Registry \<Rightarrow> Dependency \<Rightarrow> string option \<Rightarrow> HoistingState
     \<Rightarrow> (PlanError + (string \<times> string) list) \<times> HoistingState" where
  "resolveDependency lib registry dep parentDir st =
     (let st1 = st\<lparr>dependencyMap :=
                  AList.update (depKeyOf parentDir (dep_name dep))
                    \<lparr>pending_name = dep_name dep, versionRange = Some (dep_version dep),
                     pending_parentDirectory = parentDir\<rparr>
                    (dependencyMap st)\<rparr>
      in case getCachedPackageInfo registry (dep_name dep) st1 of
           (Inl err, st2) \<Rightarrow> (Inl err, st2)
         | (Inr packageInfo, st2) \<Rightarrow>
             (case resolveVersion lib (map fst (versions packageInfo)) (dep_version dep) of
                Inl err \<Rightarrow> (Inl err, st2)
              | Inr resolvedVersion \<Rightarrow>
                  (case map_of (versions packageInfo) resolvedVersion of
                     None \<Rightarrow> (Inl TypeError, st2)
                   | Some versionInfo \<Rightarrow>
                       (Inr (case dependencies versionInfo of None \<Rightarrow> [] | Some ds \<Rightarrow> ds),
                        st2\<lparr>versionUsageCount :=
                              trackVersionUsage (dep_name dep) resolvedVersion parentDir
                                (versionUsageCount st2),
                            installationPlan := installationPlan st2 @
                              [\<lparr>name = dep_name dep, version = Some resolvedVersion,
                                parentDirectory = parentDir\<rparr>]\<rparr>))))"

definition childParentDirectory :: "Libraries \<Rightarrow> Dependency \<Rightarrow> string option \<Rightarrow> string" where
  "childParentDirectory lib dep parentDir =
     (case parentDir of
        None \<Rightarrow> dep_name dep
      | Some d \<Rightarrow> if d = [] then dep_name dep else path_join lib [d, ''node_modules'', dep_name dep])"

text \<open>
  The recursion. Fuel bounds the nesting depth: it is spent where the loop over the
  children calls \<^verbatim>\<open>processDependency\<close> again.
\<close>

function processDependency ::
    "nat \<Rightarrow> Libraries \<Rightarrow> Registry \<Rightarrow> Dependency \<Rightarrow> string option \<Rightarrow> HoistingState
       \<Rightarrow> Outcome \<times> HoistingState"
  and processChildren ::
    "nat \<Rightarrow> Libraries \<Rightarrow> Registry \<Rightarrow> (string \<times> string) list \<Rightarrow> Dependency \<Rightarrow> string option
       \<Rightarrow> HoistingState \<Rightarrow> Outcome \<times> HoistingState"
where
  "processDependency fuel lib registry dep parentDir st =
     (let depKey = depKeyOf parentDir (dep_name dep);
          st0 = recordSighting depKey dep st
      in case map_of (dependencyMap st0) depKey of
           Some existing \<Rightarrow> (Returned, mergeVersionRanges lib depKey existing dep st0)
         | None \<Rightarrow>
             (case resolveDependency lib registry dep parentDir st0 of
                (Inl err, st1) \<Rightarrow> (Threw err, st1)
              | (Inr childDeps, st1) \<Rightarrow>
                  processChildren fuel lib registry childDeps dep parentDir st1))"
| "processChildren fuel lib registry [] dep parentDir st = (Returned, st)"
| "processChildren 0 lib registry (c # childDeps) dep parentDir st = (OutOfFuel, st)"
| "processChildren (Suc fuel) lib registry (c # childDeps) dep parentDir st =
     (case processDependency fuel lib registry
             \<lparr>dep_name = fst c, dep_version = snd c\<rparr>
             (Some (childParentDirectory lib dep parentDir)) st of
        (Returned, st') \<Rightarrow> processChildren (Suc fuel) lib registry childDeps dep parentDir st'
      | (out, st') \<Rightarrow> (out, st'))"
  by pat_completeness auto
termination
  by (relation "inv_image (less_than <*lex*> less_than <*lex*> less_than)
        (\<lambda>x. case x of
           Inl (fuel, lib, registry, dep, parentDir, st) \<Rightarrow> (fuel, Suc 0, 0)
         | Inr (fuel, lib, registry, childDeps, dep, parentDir, st) \<Rightarrow> (fuel, 0, length childDeps))")
     auto

subsection \<open>constructInstallationPlan\<close>

text \<open>Lines 140 to 142, the loop over \<^verbatim>\<open>Object.entries(topLevelDependencies)\<close>.\<close>

fun processTopLevel ::
  "nat \<Rightarrow> Libraries \<Rightarrow> Registry \<Rightarrow> (string \<times> string) list \<Rightarrow> HoistingState
     \<Rightarrow> Outcome \<times> HoistingState" where
  "processTopLevel fuel lib registry [] st = (Returned, st)"
| "processTopLevel fuel lib registry (d # rest) st =
     (case processDependency fuel lib registry \<lparr>dep_name = fst d, dep_version = snd d\<rparr> None st of
        (Returned, st') \<Rightarrow> processTopLevel fuel lib registry rest st'
      | (out, st') \<Rightarrow> (out, st'))"

text \<open>
  \<^verbatim>\<open>pkgVersion.split('@')\<close> as its first part and the list of the parts after it (the
  result of \<^verbatim>\<open>split\<close> is never empty).
\<close>

fun splitOn :: "char \<Rightarrow> string \<Rightarrow> string \<times> string list" where
  "splitOn c [] = ([], [])"
| "splitOn c (x # xs) =
     (case splitOn c xs of (p, ps) \<Rightarrow> if x = c then ([], p # ps) else (x # p, ps))"

text \<open>
  Lines 146 to 159, the body of the hoisting loop for one key of \<^verbatim>\<open>versionUsageCount\<close>.
  The destructuring \<^verbatim>\<open>[name, version]\<close> leaves \<^verbatim>\<open>version\<close> undefined when the key has no
  second part.
\<close>

definition hoistVersion :: "InstallationPlan \<Rightarrow> string \<Rightarrow> InstallationPlan" where
  "hoistVersion plan pkgVersion =
     (case splitOn CHR ''@'' pkgVersion of
        (nm, rest) \<Rightarrow>
          (let ver = (case rest of [] \<Rightarrow> None | v # _ \<Rightarrow> Some v);
               rootParentDirectory = ''root'';
               existingPlanItem =
                 find (\<lambda>item. name item = nm \<and> version item = ver \<and>
                                parentDirectory item = Some rootParentDirectory) plan
           in if existingPlanItem = None
              then plan @ [\<lparr>name = nm, version = ver, parentDirectory = Some rootParentDirectory\<rparr>]
              else plan))"

definition hoistingPass ::
  "(string \<times> PackageVersionInfo) list \<Rightarrow> InstallationPlan \<Rightarrow> InstallationPlan" where
  "hoistingPass ledger plan = foldl hoistVersion plan (map fst ledger)"

definition initialState :: HoistingState where
  "initialState =
     \<lparr>installationPlan = [], dependencyMap = [], packageInfoCache = [],
      registryRequests = [], sightings = [], versionUsageCount = []\<rparr>"

text \<open>
  The whole call with its final state: the walk, then the hoisting pass when the walk
  returned.
\<close>

definition runInstallationPlan ::
  "nat \<Rightarrow> Libraries \<Rightarrow> Registry \<Rightarrow> (string \<times> string) list \<Rightarrow> Outcome \<times> HoistingState" where
  "runInstallationPlan fuel lib registry topLevelDependencies =
     (case processTopLevel fuel lib registry topLevelDependencies initialState of
        (Returned, st) \<Rightarrow>
          (Returned,
           st\<lparr>installationPlan := hoistingPass (versionUsageCount st) (installationPlan st)\<rparr>)
      | (out, st) \<Rightarrow> (out, st))"

text \<open>
  What the caller of \<^verbatim>\<open>constructInstallationPlan\<close> observes: the plan, the error of a
  rejected promise, or \<open>None\<close> when the fuel did not suffice.
\<close>

definition constructInstallationPlan ::
  "nat \<Rightarrow> Libraries \<Rightarrow> Registry \<Rightarrow> (string \<times> string) list
     \<Rightarrow> (PlanError + InstallationPlan) option" where
  "constructInstallationPlan fuel lib registry topLevelDependencies =
     (case runInstallationPlan fuel lib registry topLevelDependencies of
        (Returned, st) \<Rightarrow> Some (Inr (installationPlan st))
      | (Threw err, st) \<Rightarrow> Some (Inl err)
      | (OutOfFuel, st) \<Rightarrow> None)"

section \<open>The other two revisions\<close>

subsection \<open>construct-plan.ts\<close>

text \<open>Lines 22 to 49: the body of the response is cached as it came.\<close>

definition getCachedPackageInfo_v1 ::
  "Registry \<Rightarrow> string \<Rightarrow> 'a PlannerState_scheme \<Rightarrow> (PlanError + PackageData) \<times> 'a PlannerState_scheme" where
  "getCachedPackageInfo_v1 registry packageName st =
     (case map_of (packageInfoCache st) packageName of
        Some info \<Rightarrow> (Inr info, st)
      | None \<Rightarrow>
          (let st1 = st\<lparr>registryRequests := registryRequests st @ [packageName]\<rparr> in
           case registry packageName of
             NetworkFailure \<Rightarrow> (Inl (FetchRejected packageName), st1)
           | Response status data \<Rightarrow>
               if status \<noteq> 200 then (Inl (FetchFailed packageName), st1)
               else (Inr data,
                     st1\<lparr>packageInfoCache :=
                       AList.update packageName data (packageInfoCache st1)\<rparr>)))"

text \<open>Lines 74 to 97, as \<open>resolveDependency\<close> without the usage ledger.\<close>

definition resolveDependency_v1 ::
  "Libraries \<Rightarrow> Registry \<Rightarrow> Dependency \<Rightarrow> string option \<Rightarrow> PlannerState
     \<Rightarrow> (PlanError + (string \<times> string) list) \<times> PlannerState" where
  "resolveDependency_v1 lib registry dep parentDir st =
     (let st1 = st\<lparr>dependencyMap :=
                  AList.update (depKeyOf parentDir (dep_name dep))
                    \<lparr>pending_name = dep_name dep, versionRange = Some (dep_version dep),
                     pending_parentDirectory = parentDir\<rparr>
                    (dependencyMap st)\<rparr>
      in case getCachedPackageInfo_v1 registry (dep_name dep) st1 of
           (Inl err, st2) \<Rightarrow> (Inl err, st2)
         | (Inr packageInfo, st2) \<Rightarrow>
             (case resolveVersion lib (map fst (versions packageInfo)) (dep_version dep) of
                Inl err \<Rightarrow> (Inl err, st2)
              | Inr resolvedVersion \<Rightarrow>
                  (case map_of (versions packageInfo) resolvedVersion of
                     None \<Rightarrow> (Inl TypeError, st2)
                   | Some versionInfo \<Rightarrow>
                       (Inr (case dependencies versionInfo of None \<Rightarrow> [] | Some ds \<Rightarrow> ds),
                        st2\<lparr>installationPlan := installationPlan st2 @
                              [\<lparr>name = dep_name dep, version = Some resolvedVersion,
                                parentDirectory = parentDir\<rparr>]\<rparr>))))"

function processDependency_v1 ::
    "nat \<Rightarrow> Libraries \<Rightarrow> Registry \<Rightarrow> Dependency \<Rightarrow> string option \<Rightarrow> PlannerState
       \<Rightarrow> Outcome \<times> PlannerState"
  and processChildren_v1 ::
    "nat \<Rightarrow> Libraries \<Rightarrow> Registry \<Rightarrow> (string \<times> string) list \<Rightarrow> Dependency \<Rightarrow> string option
       \<Rightarrow> PlannerState \<Rightarrow> Outcome \<times> PlannerState"
where
  "processDependency_v1 fuel lib registry dep parentDir st =
     (let depKey = depKeyOf parentDir (dep_name dep);
          st0 = recordSighting depKey dep st
      in case map_of (dependencyMap st0) depKey of
           Some existing \<Rightarrow> (Returned, mergeVersionRanges lib depKey existing dep st0)
         | None \<Rightarrow>
             (case resolveDependency_v1 lib registry dep parentDir st0 of
                (Inl err, st1) \<Rightarrow> (Threw err, st1)
              | (Inr childDeps, st1) \<Rightarrow>
                  processChildren_v1 fuel lib registry childDeps dep parentDir st1))"
| "processChildren_v1 fuel lib registry [] dep parentDir st = (Returned, st)"
| "processChildren_v1 0 lib registry (c # childDeps) dep parentDir st = (OutOfFuel, st)"
| "processChildren_v1 (Suc fuel) lib registry (c # childDeps) dep parentDir st =
     (case processDependency_v1 fuel lib registry
             \<lparr>dep_name = fst c, dep_version = snd c\<rparr>
             (Some (childParentDirectory lib dep parentDir)) st of
        (Returned, st') \<Rightarrow> processChildren_v1 (Suc fuel) lib registry childDeps dep parentDir st'
      | (out, st') \<Rightarrow> (out, st'))"
  by pat_completeness auto
termination
  by (relation "inv_image (less_than <*lex*> less_than <*lex*> less_than)
        (\<lambda>x. case x of
           Inl (fuel, lib, registry, dep, parentDir, st) \<Rightarrow> (fuel, Suc 0, 0)
         | Inr (fuel, lib, registry, childDeps, dep, parentDir, st) \<Rightarrow> (fuel, 0, length childDeps))")
     auto

fun processTopLevel_v1 ::
  "nat \<Rightarrow> Libraries \<Rightarrow> Registry \<Rightarrow> (string \<times> string) list \<Rightarrow> PlannerState
     \<Rightarrow> Outcome \<times> PlannerState" where
  "processTopLevel_v1 fuel lib registry [] st = (Returned, st)"
| "processTopLevel_v1 fuel lib registry (d # rest) st =
     (case processDependency_v1 fuel lib registry \<lparr>dep_name = fst d, dep_version = snd d\<rparr> None st of
        (Returned, st') \<Rightarrow> processTopLevel_v1 fuel lib registry rest st'
      | (out, st') \<Rightarrow> (out, st'))"

definition initialState_v1 :: PlannerState where
  "initialState_v1 =
     \<lparr>installationPlan = [], dependencyMap = [], packageInfoCache = [],
      registryRequests = [], sightings = []\<rparr>"

definition runInstallationPlan_v1 ::
  "nat \<Rightarrow> Libraries \<Rightarrow> Registry \<Rightarrow> (string \<times> string) list \<Rightarrow> Outcome \<times> PlannerState" where
  "runInstallationPlan_v1 fuel lib registry topLevelDependencies =
     processTopLevel_v1 fuel lib registry topLevelDependencies initialState_v1"

definition constructInstallationPlan_v1 ::
  "nat \<Rightarrow> Libraries \<Rightarrow> Registry \<Rightarrow> (string \<times> string) list
     \<Rightarrow> (PlanError + InstallationPlan) option" where
  "constructInstallationPlan_v1 fuel lib registry topLevelDependencies =
     (case runInstallationPlan_v1 fuel lib registry topLevelDependencies of
        (Returned, st) \<Rightarrow> Some (Inr (installationPlan st))
      | (Threw err, st) \<Rightarrow> Some (Inl err)
      | (OutOfFuel, st) \<Rightarrow> None)"

subsection \<open>construct-plan-v3.ts\<close>

text \<open>
  The cache file: absent, unreadable (\<^verbatim>\<open>readFileSync\<close> or \<^verbatim>\<open>JSON.parse\<close> throws), or a
  JSON object from package name to metadata. \<open>cacheFileWrites\<close> counts the calls of
  \<^verbatim>\<open>writeFileSync\<close>; whether such a call succeeds is the parameter \<open>writable\<close>.
\<close>

datatype CacheFile = Missing | Unreadable | Contents "(string \<times> PackageData) list"

record PersistentState = PlannerState +
  cacheFile :: CacheFile
  cacheFileWrites :: nat

text \<open>
  Lines 64 to 71. The loop builds the value by the assignment
  \<^verbatim>\<open>minimalData.versions[version] = ...\<close> on a plain object. For the key \<^verbatim>\<open>__proto__\<close> such an
  assignment sets the prototype of the object and stores no key, so a version of that name
  is missing from the value. The prototype is read nowhere: \<^verbatim>\<open>Object.keys\<close>, the lookup of a
  resolved version (which is one of those keys) and \<^verbatim>\<open>JSON.stringify\<close> see stored keys only.
\<close>

definition minimalData :: "PackageData \<Rightarrow> PackageData" where
  "minimalData data =
     \<lparr>versions = map (\<lambda>(v, versionData).
          (v, \<lparr>dependencies = Some (case dependencies versionData of None \<Rightarrow> [] | Some ds \<Rightarrow> ds),
               otherVersionFields = []\<rparr>))
          (filter (\<lambda>(v, versionData). v \<noteq> ''__proto__'') (versions data)),
      otherPackageFields = []\<rparr>"

definition getCachedPackageInfo_v3 ::
  "bool \<Rightarrow> Registry \<Rightarrow> string \<Rightarrow> PersistentState \<Rightarrow> (PlanError + PackageData) \<times> PersistentState" where
  "getCachedPackageInfo_v3 writable registry packageName st =
     (case map_of (packageInfoCache st) packageName of
        Some info \<Rightarrow> (Inr info, st)
      | None \<Rightarrow>
          (let st1 = st\<lparr>registryRequests := registryRequests st @ [packageName]\<rparr> in
           case registry packageName of
             NetworkFailure \<Rightarrow> (Inl (FetchRejected packageName), st1)
           | Response status data \<Rightarrow>
               if status \<noteq> 200 then (Inl (FetchFailed packageName), st1)
               else
                 (let st2 = st1\<lparr>packageInfoCache :=
                        AList.update packageName (minimalData data) (packageInfoCache st1)\<rparr>;
                      st3 = st2\<lparr>cacheFileWrites := cacheFileWrites st2 + 1,
                                cacheFile := (if writable then Contents (packageInfoCache st2)
                                              else cacheFile st2)\<rparr>
                  in (Inr (minimalData data), st3))))"

text \<open>Lines 110 to 133, as \<open>resolveDependency\<close> without the usage ledger.\<close>

definition resolveDependency_v3 ::
  "bool \<Rightarrow> Libraries \<Rightarrow> Registry \<Rightarrow> Dependency \<Rightarrow> string option \<Rightarrow> PersistentState
     \<Rightarrow> (PlanError + (string \<times> string) list) \<times> PersistentState" where
  "resolveDependency_v3 writable lib registry dep parentDir st =
     (let st1 = st\<lparr>dependencyMap :=
                  AList.update (depKeyOf parentDir (dep_name dep))
                    \<lparr>pending_name = dep_name dep, versionRange = Some (dep_version dep),
                     pending_parentDirectory = parentDir\<rparr>
                    (dependencyMap st)\<rparr>
      in case getCachedPackageInfo_v3 writable registry (dep_name dep) st1 of
           (Inl err, st2) \<Rightarrow> (Inl err, st2)
         | (Inr packageInfo, st2) \<Rightarrow>
             (case resolveVersion lib (map fst (versions packageInfo)) (dep_version dep) of
                Inl err \<Rightarrow> (Inl err, st2)
              | Inr resolvedVersion \<Rightarrow>
                  (case map_of (versions packageInfo) resolvedVersion of
                     None \<Rightarrow> (Inl TypeError, st2)
                   | Some versionInfo \<Rightarrow>
                       (Inr (case dependencies versionInfo of None \<Rightarrow> [] | Some ds \<Rightarrow> ds),
                        st2\<lparr>installationPlan := installationPlan st2 @
                              [\<lparr>name = dep_name dep, version = Some resolvedVersion,
                                parentDirectory = parentDir\<rparr>]\<rparr>))))"

function processDependency_v3 ::
    "nat \<Rightarrow> bool \<Rightarrow> Libraries \<Rightarrow> Registry \<Rightarrow> Dependency \<Rightarrow> string option \<Rightarrow> PersistentState
       \<Rightarrow> Outcome \<times> PersistentState"
  and processChildren_v3 ::
    "nat \<Rightarrow> bool \<Rightarrow> Libraries \<Rightarrow> Registry \<Rightarrow> (string \<times> string) list \<Rightarrow> Dependency
       \<Rightarrow> string option \<Rightarrow> PersistentState \<Rightarrow> Outcome \<times> PersistentState"
where
  "processDependency_v3 fuel writable lib registry dep parentDir st =
     (let depKey = depKeyOf parentDir (dep_name dep);
          st0 = recordSighting depKey dep st
      in case map_of (dependencyMap st0) depKey of
           Some existing \<Rightarrow> (Returned, mergeVersionRanges lib depKey existing dep st0)
         | None \<Rightarrow>
             (case resolveDependency_v3 writable lib registry dep parentDir st0 of
                (Inl err, st1) \<Rightarrow> (Threw err, st1)
              | (Inr childDeps, st1) \<Rightarrow>
                  processChildren_v3 fuel writable lib registry childDeps dep parentDir st1))"
| "processChildren_v3 fuel writable lib registry [] dep parentDir st = (Returned, st)"
| "processChildren_v3 0 writable lib registry (c # childDeps) dep parentDir st = (OutOfFuel, st)"
| "processChildren_v3 (Suc fuel) writable lib registry (c # childDeps) dep parentDir st =
     (case processDependency_v3 fuel writable lib registry
             \<lparr>dep_name = fst c, dep_version = snd c\<rparr>
             (Some (childParentDirectory lib dep parentDir)) st of
        (Returned, st') \<Rightarrow>
          processChildren_v3 (Suc fuel) writable lib registry childDeps dep parentDir st'
      | (out, st') \<Rightarrow> (out, st'))"
  by pat_completeness auto
termination
  by (relation "inv_image (less_than <*lex*> less_than <*lex*> less_than)
        (\<lambda>x. case x of
           Inl (fuel, writable, lib, registry, dep, parentDir, st) \<Rightarrow> (fuel, Suc 0, 0)
         | Inr (fuel, writable, lib, registry, childDeps, dep, parentDir, st) \<Rightarrow>
             (fuel, 0, length childDeps))")
     auto

fun processTopLevel_v3 ::
  "nat \<Rightarrow> bool \<Rightarrow> Libraries \<Rightarrow> Registry \<Rightarrow> (string \<times> string) list \<Rightarrow> PersistentState
     \<Rightarrow> Outcome \<times> PersistentState" where
  "processTopLevel_v3 fuel writable lib registry [] st = (Returned, st)"
| "processTopLevel_v3 fuel writable lib registry (d # rest) st =
     (case processDependency_v3 fuel writable lib registry
             \<lparr>dep_name = fst d, dep_version = snd d\<rparr> None st of
        (Returned, st') \<Rightarrow> processTopLevel_v3 fuel writable lib registry rest st'
      | (out, st') \<Rightarrow> (out, st'))"

text \<open>Lines 26 to 37: the in-memory cache starts as the entries of the cache file.\<close>

definition initialState_v3 :: "CacheFile \<Rightarrow> PersistentState" where
  "initialState_v3 file =
     \<lparr>installationPlan = [], dependencyMap = [],
      packageInfoCache =
        (case file of
           Contents cacheJson \<Rightarrow> foldl (\<lambda>cache (key, val). AList.update key val cache) [] cacheJson
         | _ \<Rightarrow> []),
      registryRequests = [], sightings = [], cacheFile = file, cacheFileWrites = 0\<rparr>"

definition runInstallationPlan_v3 ::
  "nat \<Rightarrow> bool \<Rightarrow> CacheFile \<Rightarrow> Libraries \<Rightarrow> Registry \<Rightarrow> (string \<times> string) list
     \<Rightarrow> Outcome \<times> PersistentState" where
  "runInstallationPlan_v3 fuel writable file lib registry topLevelDependencies =
     processTopLevel_v3 fuel writable lib registry topLevelDependencies (initialState_v3 file)"

definition constructInstallationPlan_v3 ::
  "nat \<Rightarrow> bool \<Rightarrow> CacheFile \<Rightarrow> Libraries \<Rightarrow> Registry \<Rightarrow> (string \<times> string) list
     \<Rightarrow> (PlanError + InstallationPlan) option" where
  "constructInstallationPlan_v3 fuel writable file lib registry topLevelDependencies =
     (case runInstallationPlan_v3 fuel writable file lib registry topLevelDependencies of
        (Returned, st) \<Rightarrow> Some (Inr (installationPlan st))
      | (Threw err, st) \<Rightarrow> Some (Inl err)
      | (OutOfFuel, st) \<Rightarrow> None)"

section \<open>A concrete registry\<close>

text \<open>
  Inputs for closed instances of the theorems below. \<open>demoLibraries\<close> tabulates the values
  of the two libraries on the strings that \<open>demoRegistry\<close> uses; \<open>path.join\<close> on plain
  segments is the segments joined by a slash. Package \<open>a\<close> is the one of the spec's first
  scenario; \<open>b\<close> depends on \<open>c\<close>, \<open>f\<close> on the unpublished \<open>g\<close>, and \<open>x\<close> and \<open>y\<close> on
  each other; \<open>p\<close> has a version whose key is \<^verbatim>\<open>__proto__\<close>. A name that the table lacks is
  answered with status 404.
\<close>

fun joinSegments :: "string list \<Rightarrow> string" where
  "joinSegments [] = ''.''"
| "joinSegments [p] = p"
| "joinSegments (p # ps) = p @ ''/'' @ joinSegments ps"

definition demoLibraries :: Libraries where
  "demoLibraries =
     \<lparr>semver_satisfies = (\<lambda>v r. (v, r) \<in> set
         [(''1.0.0'', ''^1.0.0''), (''1.2.0'', ''^1.0.0''), (''2.0.0'', ''^2.0.0'')]),
      semver_lt = (\<lambda>v w. (v, w) \<in> set
         [(''1.0.0'', ''1.2.0''), (''1.0.0'', ''2.0.0''), (''1.2.0'', ''2.0.0'')]),
      semver_validRange = map_of
         [(''^1.0.0'', ''>=1.0.0 <2.0.0-0''),
          (''^2.0.0'', ''>=2.0.0 <3.0.0-0''),
          (''^1.0.0 || ^1.0.0'', ''>=1.0.0 <2.0.0-0||>=1.0.0 <2.0.0-0''),
          (''^2.0.0 || ^1.0.0'', ''>=2.0.0 <3.0.0-0||>=1.0.0 <2.0.0-0'')],
      path_join = joinSegments\<rparr>"

definition plainVersion :: "string \<Rightarrow> (string \<times> string) list option \<Rightarrow> string \<times> VersionData" where
  "plainVersion v deps =
     (v, \<lparr>dependencies = deps,
          otherVersionFields = [(''dist'', ''{\"tarball\": \"https://registry.npmjs.org/\"}'')]\<rparr>)"

definition demoPackages :: "(string \<times> PackageData) list" where
  "demoPackages =
     [(''a'', \<lparr>versions = [plainVersion ''1.0.0'' None, plainVersion ''1.2.0'' None,
                           plainVersion ''2.0.0'' None],
              otherPackageFields = [(''description'', ''\"package a\"'')]\<rparr>),
      (''b'', \<lparr>versions = [plainVersion ''1.0.0'' (Some [(''c'', ''^1.0.0'')])],
              otherPackageFields = []\<rparr>),
      (''c'', \<lparr>versions = [plainVersion ''1.0.0'' None, plainVersion ''2.0.0'' None],
              otherPackageFields = []\<rparr>),
      (''f'', \<lparr>versions = [plainVersion ''1.0.0'' (Some [(''g'', ''^1.0.0'')])],
              otherPackageFields = []\<rparr>),
      (''x'', \<lparr>versions = [plainVersion ''1.0.0'' (Some [(''y'', ''^1.0.0'')])],
              otherPackageFields = []\<rparr>),
      (''y'', \<lparr>versions = [plainVersion ''1.0.0'' (Some [(''x'', ''^1.0.0'')])],
              otherPackageFields = []\<rparr>),
      (''p'', \<lparr>versions = [plainVersion ''1.0.0'' None,
                           plainVersion ''__proto__'' (Some [(''c'', ''^1.0.0'')])],
              otherPackageFields = [(''description'', ''\"package p\"'')]\<rparr>)]"

definition demoRegistry :: Registry where
  "demoRegistry packageName =
     (case map_of demoPackages packageName of
        Some data \<Rightarrow> Response 200 data
      | None \<Rightarrow> Response 404 \<lparr>versions = [], otherPackageFields = []\<rparr>)"

section \<open>Vocabulary of the properties\<close>

text \<open>The entry that the hoisting loop looks for, and appends when it is missing.\<close>

definition rootItemOf :: "string \<Rightarrow> DependencyInstallation" where
  "rootItemOf pkgVersion =
     \<lparr>name = fst (splitOn CHR ''@'' pkgVersion),
      version = (case snd (splitOn CHR ''@'' pkgVersion) of [] \<Rightarrow> None | v # _ \<Rightarrow> Some v),
      parentDirectory = Some ''root''\<rparr>"

text \<open>
  The three revisions of \<^verbatim>\<open>processDependency\<close> differ only in the block that resolves a
  newly sighted slot. \<open>walkWith\<close> is their common skeleton with that block as the parameter
  \<open>resolve\<close>; each revision is proved equal to an instance of it, and the lemmas about
  the recursion are proved once, about the skeleton.
\<close>

function walkWith ::
    "(Dependency \<Rightarrow> string option \<Rightarrow> 'a PlannerState_scheme
        \<Rightarrow> (PlanError + (string \<times> string) list) \<times> 'a PlannerState_scheme)
     \<Rightarrow> Libraries \<Rightarrow> nat \<Rightarrow> Dependency \<Rightarrow> string option \<Rightarrow> 'a PlannerState_scheme
     \<Rightarrow> Outcome \<times> 'a PlannerState_scheme"
  and walkChildrenWith ::
    "(Dependency \<Rightarrow> string option \<Rightarrow> 'a PlannerState_scheme
        \<Rightarrow> (PlanError + (string \<times> string) list) \<times> 'a PlannerState_scheme)
     \<Rightarrow> Libraries \<Rightarrow> nat \<Rightarrow> (string \<times> string) list \<Rightarrow> Dependency \<Rightarrow> string option
     \<Rightarrow> 'a PlannerState_scheme \<Rightarrow> Outcome \<times> 'a PlannerState_scheme"
where
  "walkWith resolve lib fuel dep parentDir st =
     (let depKey = depKeyOf parentDir (dep_name dep);
          st0 = recordSighting depKey dep st
      in case map_of (dependencyMap st0) depKey of
           Some existing \<Rightarrow> (Returned, mergeVersionRanges lib depKey existing dep st0)
         | None \<Rightarrow>
             (case resolve dep parentDir st0 of
                (Inl err, st1) \<Rightarrow> (Threw err, st1)
              | (Inr childDeps, st1) \<Rightarrow>
                  walkChildrenWith resolve lib fuel childDeps dep parentDir st1))"
| "walkChildrenWith resolve lib fuel [] dep parentDir st = (Returned, st)"
| "walkChildrenWith resolve lib 0 (c # childDeps) dep parentDir st = (OutOfFuel, st)"
| "walkChildrenWith resolve lib (Suc fuel) (c # childDeps) dep parentDir st =
     (case walkWith resolve lib fuel \<lparr>dep_name = fst c, dep_version = snd c\<rparr>
             (Some (childParentDirectory lib dep parentDir)) st of
        (Returned, st') \<Rightarrow> walkChildrenWith resolve lib (Suc fuel) childDeps dep parentDir st'
      | (out, st') \<Rightarrow> (out, st'))"
  by pat_completeness auto
termination
  by (relation "inv_image (less_than <*lex*> less_than <*lex*> less_than)
        (\<lambda>x. case x of
           Inl (resolve, lib, fuel, dep, parentDir, st) \<Rightarrow> (fuel, Suc 0, 0)
         | Inr (resolve, lib, fuel, childDeps, dep, parentDir, st) \<Rightarrow>
             (fuel, 0, length childDeps))")
     auto

fun walkTopLevelWith ::
  "(Dependency \<Rightarrow> string option \<Rightarrow> 'a PlannerState_scheme
        \<Rightarrow> (PlanError + (string \<times> string) list) \<times> 'a PlannerState_scheme)
     \<Rightarrow> Libraries \<Rightarrow> nat \<Rightarrow> (string \<times> string) list \<Rightarrow> 'a PlannerState_scheme
     \<Rightarrow> Outcome \<times> 'a PlannerState_scheme" where
  "walkTopLevelWith resolve lib fuel [] st = (Returned, st)"
| "walkTopLevelWith resolve lib fuel (d # rest) st =
     (case walkWith resolve lib fuel \<lparr>dep_name = fst d, dep_version = snd d\<rparr> None st of
        (Returned, st') \<Rightarrow> walkTopLevelWith resolve lib fuel rest st'
      | (out, st') \<Rightarrow> (out, st'))"

text \<open>
  An invariant \<open>I\<close> of the walk comes with a condition \<open>E\<close> on the state that a thrown
  error leaves behind. \<open>stepsPreserve\<close> says that the two non-recursive steps of
  \<^verbatim>\<open>processDependency\<close> keep them.
\<close>

definition post :: "('s \<Rightarrow> bool) \<Rightarrow> (PlanError \<Rightarrow> 's \<Rightarrow> bool) \<Rightarrow> Outcome \<times> 's \<Rightarrow> bool" where
  "post I E r = (case fst r of Threw err \<Rightarrow> E err (snd r) | _ \<Rightarrow> I (snd r))"

definition stepsPreserve ::
  "(Dependency \<Rightarrow> string option \<Rightarrow> 'a PlannerState_scheme
        \<Rightarrow> (PlanError + (string \<times> string) list) \<times> 'a PlannerState_scheme)
     \<Rightarrow> Libraries \<Rightarrow> ('a PlannerState_scheme \<Rightarrow> bool)
     \<Rightarrow> (PlanError \<Rightarrow> 'a PlannerState_scheme \<Rightarrow> bool) \<Rightarrow> bool" where
  "stepsPreserve resolve lib I E \<longleftrightarrow>
     (\<forall>dep parentDir st existing. I st \<longrightarrow>
        map_of (dependencyMap st) (depKeyOf parentDir (dep_name dep)) = Some existing \<longrightarrow>
        I (mergeVersionRanges lib (depKeyOf parentDir (dep_name dep)) existing dep
             (recordSighting (depKeyOf parentDir (dep_name dep)) dep st)))
   \<and> (\<forall>dep parentDir st r st'. I st \<longrightarrow>
        map_of (dependencyMap st) (depKeyOf parentDir (dep_name dep)) = None \<longrightarrow>
        resolve dep parentDir
          (recordSighting (depKeyOf parentDir (dep_name dep)) dep st) = (r, st') \<longrightarrow>
        (case r of Inl err \<Rightarrow> E err st' | Inr childDeps \<Rightarrow> I st'))"

text \<open>
  The install location of a plan entry: its parent directory, with \<^verbatim>\<open>undefined\<close> read as the
  root directory the way \<^verbatim>\<open>processDependency\<close> reads it (\<^verbatim>\<open>parentDirectory || 'root'\<close>, lines
  80 and 114). \<open>locationTriple\<close> is the name, version and install location of an entry.
\<close>

definition installLocation :: "DependencyInstallation \<Rightarrow> string" where
  "installLocation item = orRoot (parentDirectory item)"

definition locationTriple :: "DependencyInstallation \<Rightarrow> string \<times> string option \<times> string" where
  "locationTriple item = (name item, version item, installLocation item)"

text \<open>The slot key under which \<^verbatim>\<open>processDependency\<close> pushed a plan entry.\<close>

definition slotKeyOf :: "DependencyInstallation \<Rightarrow> string" where
  "slotKeyOf item = depKeyOf (parentDirectory item) (name item)"

text \<open>
  Invariant for the uniqueness of plan entries: no two entries of the plan have the same
  slot key, and the slot key of every entry is in \<^verbatim>\<open>dependencyMap\<close>.
\<close>

definition slotsDistinct :: "HoistingState \<Rightarrow> bool" where
  "slotsDistinct st \<longleftrightarrow>
     distinct (map slotKeyOf (installationPlan st)) \<and>
     (\<forall>item\<in>set (installationPlan st). map_of (dependencyMap st) (slotKeyOf item) \<noteq> None)"

text \<open>A state in which the slot of the top-level dependency \<open>a\<close> is already resolved.\<close>

definition demoSightedState :: HoistingState where
  "demoSightedState =
     initialState\<lparr>
       installationPlan := [\<lparr>name = ''a'', version = Some ''1.2.0'', parentDirectory = None\<rparr>],
       dependencyMap := [(''root##a'',
          \<lparr>pending_name = ''a'', versionRange = Some ''^1.0.0'', pending_parentDirectory = None\<rparr>)]\<rparr>"

text \<open>A cached value that holds nothing but the dependencies of each version.\<close>

definition onlyDependencies :: "PackageData \<Rightarrow> bool" where
  "onlyDependencies info \<longleftrightarrow>
     otherPackageFields info = [] \<and> list_all (\<lambda>(v, vd). otherVersionFields vd = []) (versions info)"

text \<open>
  Invariant for the fetch count: no name was requested twice, and every requested name is
  in the cache. After a throw only the first half is left.
\<close>

definition requestsOnce :: "'a PlannerState_scheme \<Rightarrow> bool" where
  "requestsOnce st \<longleftrightarrow>
     distinct (registryRequests st) \<and>
     set (registryRequests st) \<subseteq> fst ` set (packageInfoCache st)"

text \<open>Every value in the cache holds nothing but dependencies.\<close>

definition cacheMinimal :: "HoistingState \<Rightarrow> bool" where
  "cacheMinimal st \<longleftrightarrow> list_all (\<lambda>(nm, info). onlyDependencies info) (packageInfoCache st)"

text \<open>
  The resolved version of a plan entry satisfies the range that its slot, the key of its
  parent directory and name, had at the first sighting in the history.
\<close>

definition satisfiesFirstRange ::
  "Libraries \<Rightarrow> (string \<times> Dependency) list \<Rightarrow> DependencyInstallation \<Rightarrow> bool" where
  "satisfiesFirstRange lib history item =
     (case version item of
        None \<Rightarrow> False
      | Some v \<Rightarrow>
          (case map_of history (depKeyOf (parentDirectory item) (name item)) of
             None \<Rightarrow> False
           | Some dep \<Rightarrow> semver_satisfies lib v (dep_version dep)))"

text \<open>The ledger key that \<^verbatim>\<open>processDependency\<close> forms for a plan entry.\<close>

definition ledgerKeyOf :: "DependencyInstallation \<Rightarrow> string" where
  "ledgerKeyOf item = name item @ ''@'' @ (case version item of None \<Rightarrow> [] | Some v \<Rightarrow> v)"

text \<open>
  Invariant for the ranges: every sighted slot is in \<^verbatim>\<open>dependencyMap\<close>, every plan entry
  satisfies the first range of its slot, and the keys of the ledger are the ledger keys of
  the plan entries.
\<close>

definition rangesSatisfied :: "Libraries \<Rightarrow> HoistingState \<Rightarrow> bool" where
  "rangesSatisfied lib st \<longleftrightarrow>
     fst ` set (sightings st) \<subseteq> fst ` set (dependencyMap st) \<and>
     (\<forall>item\<in>set (installationPlan st). satisfiesFirstRange lib (sightings st) item) \<and>
     fst ` set (versionUsageCount st) = ledgerKeyOf ` set (installationPlan st)"

text \<open>
  The error that resolving a dependency meets: a fetch that is rejected or not answered
  with status 200, or no version of the package that satisfies the declared range.
\<close>

definition nodeFailure :: "Libraries \<Rightarrow> Registry \<Rightarrow> Dependency \<Rightarrow> PlanError option" where
  "nodeFailure lib registry dep =
     (case registry (dep_name dep) of
        NetworkFailure \<Rightarrow> Some (FetchRejected (dep_name dep))
      | Response status data \<Rightarrow>
          if status \<noteq> 200 then Some (FetchFailed (dep_name dep))
          else if list_ex (\<lambda>v. semver_satisfies lib v (dep_version dep)) (map fst (versions data))
          then None
          else Some (VersionNotFound (dep_version dep)))"

text \<open>Every value in the cache is the reduced body of the registry's answer for its name.\<close>

definition cacheFaithful :: "Registry \<Rightarrow> HoistingState \<Rightarrow> bool" where
  "cacheFaithful registry st \<longleftrightarrow>
     list_all (\<lambda>(nm, info). \<exists>data. registry nm = Response 200 data \<and> info = relevantData data)
       (packageInfoCache st)"

text \<open>
  Invariant for the propagation of errors: every slot of \<^verbatim>\<open>dependencyMap\<close> was sighted, the
  cache is faithful, and the failure of every first-sighted dependency is among
  \<open>allowed\<close>.
\<close>

definition failuresAmong :: "Libraries \<Rightarrow> Registry \<Rightarrow> PlanError option set \<Rightarrow> HoistingState \<Rightarrow> bool" where
  "failuresAmong lib registry allowed st \<longleftrightarrow>
     fst ` set (dependencyMap st) \<subseteq> fst ` set (sightings st) \<and>
     cacheFaithful registry st \<and>
     (\<forall>k dep. map_of (sightings st) k = Some dep \<longrightarrow> nodeFailure lib registry dep \<in> allowed)"

section \<open>Lemmas\<close>

declare processDependency.simps [simp del]
declare processDependency_v1.simps [simp del]
declare processDependency_v3.simps [simp del]
declare walkWith.simps [simp del]

subsection \<open>The version resolver\<close>

lemma maxSatisfyingStep_cases:
  "maxSatisfyingStep lib rng mx v = mx
   \<or> (maxSatisfyingStep lib rng mx v = Some v \<and> semver_satisfies lib v rng)"
  by (simp add: maxSatisfyingStep_def split: option.splits)

lemma maxSatisfyingStep_None:
  "maxSatisfyingStep lib rng mx v = None \<Longrightarrow> mx = None \<and> \<not> semver_satisfies lib v rng"
  by (simp add: maxSatisfyingStep_def split: option.splits if_splits)

lemma maxSatisfying_scan_Some:
  "foldl (maxSatisfyingStep lib rng) acc vs = Some w
   \<Longrightarrow> acc = Some w \<or> (w \<in> set vs \<and> semver_satisfies lib w rng)"
proof (induction vs arbitrary: acc)
  case Nil
  then show ?case by simp
next
  case (Cons v vs)
  from Cons.prems have "foldl (maxSatisfyingStep lib rng) (maxSatisfyingStep lib rng acc v) vs = Some w"
    by simp
  from Cons.IH[OF this] maxSatisfyingStep_cases[of lib rng acc v] show ?case by auto
qed

lemma maxSatisfying_scan_None:
  "foldl (maxSatisfyingStep lib rng) acc vs = None
   \<Longrightarrow> acc = None \<and> (\<forall>v\<in>set vs. \<not> semver_satisfies lib v rng)"
proof (induction vs arbitrary: acc)
  case Nil
  then show ?case by simp
next
  case (Cons v vs)
  from Cons.prems have "foldl (maxSatisfyingStep lib rng) (maxSatisfyingStep lib rng acc v) vs = None"
    by simp
  from Cons.IH[OF this] maxSatisfyingStep_None[of lib rng acc v] show ?case by auto
qed

lemma maxSatisfying_Some:
  "maxSatisfying lib vs rng = Some w \<Longrightarrow> w \<in> set vs \<and> semver_satisfies lib w rng"
  unfolding maxSatisfying_def by (drule maxSatisfying_scan_Some) simp

lemma maxSatisfying_unsatisfiable:
  "\<forall>v\<in>set vs. \<not> semver_satisfies lib v rng \<Longrightarrow> maxSatisfying lib vs rng = None"
  using maxSatisfying_Some[of lib vs rng] by (cases "maxSatisfying lib vs rng") auto

lemma resolveVersion_Inr:
  "resolveVersion lib vs rng = Inr w \<Longrightarrow> w \<in> set vs \<and> semver_satisfies lib w rng \<and> w \<noteq> []"
  by (auto simp: resolveVersion_def split: option.splits if_splits dest: maxSatisfying_Some)

lemma resolveVersion_Inl:
  "resolveVersion lib vs rng = Inl err \<Longrightarrow> err = VersionNotFound rng"
  by (auto simp: resolveVersion_def split: option.splits if_splits)

lemma resolveVersion_unsatisfiable:
  "\<forall>v\<in>set vs. \<not> semver_satisfies lib v rng
   \<Longrightarrow> resolveVersion lib vs rng = Inl (VersionNotFound rng)"
  by (simp add: resolveVersion_def maxSatisfying_unsatisfiable)

subsection \<open>The three revisions as instances of the skeleton\<close>

lemma processChildren_walkWith_0:
  "processChildren 0 lib registry childDeps dep parentDir st
     = walkChildrenWith (resolveDependency lib registry) lib 0 childDeps dep parentDir st"
  by (cases childDeps) simp_all

lemma processDependency_walkWith_step:
  assumes "\<And>childDeps st. processChildren fuel lib registry childDeps dep parentDir st
             = walkChildrenWith (resolveDependency lib registry) lib fuel childDeps dep parentDir st"
  shows "processDependency fuel lib registry dep parentDir st
       = walkWith (resolveDependency lib registry) lib fuel dep parentDir st"
  by (simp add: processDependency.simps walkWith.simps assms Let_def
           split: option.splits prod.splits sum.splits)

lemma processChildren_walkWith_step:
  assumes "\<And>d pd st. processDependency fuel lib registry d pd st
             = walkWith (resolveDependency lib registry) lib fuel d pd st"
  shows "processChildren (Suc fuel) lib registry childDeps dep parentDir st
       = walkChildrenWith (resolveDependency lib registry) lib (Suc fuel) childDeps dep parentDir st"
  by (induction childDeps arbitrary: st) (simp_all add: assms split: prod.splits Outcome.splits)

lemma process_walkWith:
  "(\<forall>dep parentDir st. processDependency fuel lib registry dep parentDir st
       = walkWith (resolveDependency lib registry) lib fuel dep parentDir st)
   \<and> (\<forall>childDeps dep parentDir st. processChildren fuel lib registry childDeps dep parentDir st
       = walkChildrenWith (resolveDependency lib registry) lib fuel childDeps dep parentDir st)"
proof (induction fuel)
  case 0
  show ?case
    by (simp add: processChildren_walkWith_0 processDependency_walkWith_step)
next
  case (Suc fuel)
  then have "\<forall>childDeps dep parentDir st.
      processChildren (Suc fuel) lib registry childDeps dep parentDir st
       = walkChildrenWith (resolveDependency lib registry) lib (Suc fuel) childDeps dep parentDir st"
    by (simp add: processChildren_walkWith_step)
  then show ?case by (simp add: processDependency_walkWith_step)
qed

lemma processTopLevel_walkWith:
  "processTopLevel fuel lib registry deps st
     = walkTopLevelWith (resolveDependency lib registry) lib fuel deps st"
  by (induction deps arbitrary: st)
     (simp_all add: process_walkWith split: prod.splits Outcome.splits)

lemma processChildren_v1_walkWith_0:
  "processChildren_v1 0 lib registry childDeps dep parentDir st
     = walkChildrenWith (resolveDependency_v1 lib registry) lib 0 childDeps dep parentDir st"
  by (cases childDeps) simp_all

lemma processDependency_v1_walkWith_step:
  assumes "\<And>childDeps st. processChildren_v1 fuel lib registry childDeps dep parentDir st
             = walkChildrenWith (resolveDependency_v1 lib registry) lib fuel childDeps dep parentDir st"
  shows "processDependency_v1 fuel lib registry dep parentDir st
       = walkWith (resolveDependency_v1 lib registry) lib fuel dep parentDir st"
  by (simp add: processDependency_v1.simps walkWith.simps assms Let_def
           split: option.splits prod.splits sum.splits)

lemma processChildren_v1_walkWith_step:
  assumes "\<And>d pd st. processDependency_v1 fuel lib registry d pd st
             = walkWith (resolveDependency_v1 lib registry) lib fuel d pd st"
  shows "processChildren_v1 (Suc fuel) lib registry childDeps dep parentDir st
       = walkChildrenWith (resolveDependency_v1 lib registry) lib (Suc fuel) childDeps dep parentDir st"
  by (induction childDeps arbitrary: st) (simp_all add: assms split: prod.splits Outcome.splits)

lemma process_v1_walkWith:
  "(\<forall>dep parentDir st. processDependency_v1 fuel lib registry dep parentDir st
       = walkWith (resolveDependency_v1 lib registry) lib fuel dep parentDir st)
   \<and> (\<forall>childDeps dep parentDir st. processChildren_v1 fuel lib registry childDeps dep parentDir st
       = walkChildrenWith (resolveDependency_v1 lib registry) lib fuel childDeps dep parentDir st)"
proof (induction fuel)
  case 0
  show ?case
    by (simp add: processChildren_v1_walkWith_0 processDependency_v1_walkWith_step)
next
  case (Suc fuel)
  then have "\<forall>childDeps dep parentDir st.
      processChildren_v1 (Suc fuel) lib registry childDeps dep parentDir st
       = walkChildrenWith (resolveDependency_v1 lib registry) lib (Suc fuel) childDeps dep parentDir st"
    by (simp add: processChildren_v1_walkWith_step)
  then show ?case by (simp add: processDependency_v1_walkWith_step)
qed

lemma processTopLevel_v1_walkWith:
  "processTopLevel_v1 fuel lib registry deps st
     = walkTopLevelWith (resolveDependency_v1 lib registry) lib fuel deps st"
  by (induction deps arbitrary: st)
     (simp_all add: process_v1_walkWith split: prod.splits Outcome.splits)

lemma processChildren_v3_walkWith_0:
  "processChildren_v3 0 writable lib registry childDeps dep parentDir st
     = walkChildrenWith (resolveDependency_v3 writable lib registry) lib 0 childDeps dep parentDir st"
  by (cases childDeps) simp_all

lemma processDependency_v3_walkWith_step:
  assumes "\<And>childDeps st. processChildren_v3 fuel writable lib registry childDeps dep parentDir st
             = walkChildrenWith (resolveDependency_v3 writable lib registry) lib fuel childDeps dep
                 parentDir st"
  shows "processDependency_v3 fuel writable lib registry dep parentDir st
       = walkWith (resolveDependency_v3 writable lib registry) lib fuel dep parentDir st"
  by (simp add: processDependency_v3.simps walkWith.simps assms Let_def
           split: option.splits prod.splits sum.splits)

lemma processChildren_v3_walkWith_step:
  assumes "\<And>d pd st. processDependency_v3 fuel writable lib registry d pd st
             = walkWith (resolveDependency_v3 writable lib registry) lib fuel d pd st"
  shows "processChildren_v3 (Suc fuel) writable lib registry childDeps dep parentDir st
       = walkChildrenWith (resolveDependency_v3 writable lib registry) lib (Suc fuel) childDeps dep
           parentDir st"
  by (induction childDeps arbitrary: st) (simp_all add: assms split: prod.splits Outcome.splits)

lemma process_v3_walkWith:
  "(\<forall>dep parentDir st. processDependency_v3 fuel writable lib registry dep parentDir st
       = walkWith (resolveDependency_v3 writable lib registry) lib fuel dep parentDir st)
   \<and> (\<forall>childDeps dep parentDir st.
         processChildren_v3 fuel writable lib registry childDeps dep parentDir st
       = walkChildrenWith (resolveDependency_v3 writable lib registry) lib fuel childDeps dep
           parentDir st)"
proof (induction fuel)
  case 0
  show ?case
    by (simp add: processChildren_v3_walkWith_0 processDependency_v3_walkWith_step)
next
  case (Suc fuel)
  then have "\<forall>childDeps dep parentDir st.
      processChildren_v3 (Suc fuel) writable lib registry childDeps dep parentDir st
       = walkChildrenWith (resolveDependency_v3 writable lib registry) lib (Suc fuel) childDeps dep
           parentDir st"
    by (simp add: processChildren_v3_walkWith_step)
  then show ?case by (simp add: processDependency_v3_walkWith_step)
qed

lemma processTopLevel_v3_walkWith:
  "processTopLevel_v3 fuel writable lib registry deps st
     = walkTopLevelWith (resolveDependency_v3 writable lib registry) lib fuel deps st"
  by (induction deps arbitrary: st)
     (simp_all add: process_v3_walkWith split: prod.splits Outcome.splits)

subsection \<open>Invariants of the walk\<close>

lemma post_simps [simp]:
  "post I E (Returned, st) = I st"
  "post I E (OutOfFuel, st) = I st"
  "post I E (Threw err, st) = E err st"
  by (simp_all add: post_def)

lemma post_same: "post I (\<lambda>err. I) r = I (snd r)"
  by (cases r, cases "fst r") (auto simp: post_def split: Outcome.splits)

lemma stepsPreserve_merge:
  "stepsPreserve resolve lib I E \<Longrightarrow> I st \<Longrightarrow>
   map_of (dependencyMap st) (depKeyOf parentDir (dep_name dep)) = Some existing \<Longrightarrow>
   I (mergeVersionRanges lib (depKeyOf parentDir (dep_name dep)) existing dep
        (recordSighting (depKeyOf parentDir (dep_name dep)) dep st))"
  unfolding stepsPreserve_def by blast

lemma stepsPreserve_resolve:
  "stepsPreserve resolve lib I E \<Longrightarrow> I st \<Longrightarrow>
   map_of (dependencyMap st) (depKeyOf parentDir (dep_name dep)) = None \<Longrightarrow>
   resolve dep parentDir
     (recordSighting (depKeyOf parentDir (dep_name dep)) dep st) = (r, st') \<Longrightarrow>
   (case r of Inl err \<Rightarrow> E err st' | Inr childDeps \<Rightarrow> I st')"
  unfolding stepsPreserve_def by blast

lemma dependencyMap_recordSighting [simp]:
  "dependencyMap (recordSighting k dep st) = dependencyMap st"
  by (simp add: recordSighting_def)

lemma walkWith_post:
  assumes steps: "stepsPreserve resolve lib I E"
    and children: "\<And>childDeps st. I st \<Longrightarrow>
           post I E (walkChildrenWith resolve lib fuel childDeps dep parentDir st)"
    and inv: "I st"
  shows "post I E (walkWith resolve lib fuel dep parentDir st)"
proof -
  let ?k = "depKeyOf parentDir (dep_name dep)"
  let ?st0 = "recordSighting ?k dep st"
  show ?thesis
  proof (cases "map_of (dependencyMap st) ?k")
    case (Some existing)
    from stepsPreserve_merge[OF steps inv Some]
    have "I (mergeVersionRanges lib ?k existing dep ?st0)" .
    with Some show ?thesis by (simp add: walkWith.simps Let_def)
  next
    case None
    obtain r st1 where res: "resolve dep parentDir ?st0 = (r, st1)"
      by (cases "resolve dep parentDir ?st0") auto
    note step = stepsPreserve_resolve[OF steps inv None res]
    show ?thesis
    proof (cases r)
      case (Inl err)
      with step have "E err st1" by simp
      with None res Inl show ?thesis by (simp add: walkWith.simps Let_def)
    next
      case (Inr childDeps)
      with step have "I st1" by simp
      from children[OF this] None res Inr show ?thesis
        by (simp add: walkWith.simps Let_def)
    qed
  qed
qed

lemma walkChildrenWith_post:
  assumes deeper: "\<And>d pd st. I st \<Longrightarrow> post I E (walkWith resolve lib fuel d pd st)"
    and inv: "I st"
  shows "post I E (walkChildrenWith resolve lib (Suc fuel) childDeps dep parentDir st)"
  using inv
proof (induction childDeps arbitrary: st)
  case Nil
  then show ?case by simp
next
  case (Cons c childDeps)
  let ?r = "walkWith resolve lib fuel \<lparr>dep_name = fst c, dep_version = snd c\<rparr>
              (Some (childParentDirectory lib dep parentDir)) st"
  from deeper[OF Cons.prems] have p: "post I E ?r" .
  show ?case
  proof (cases ?r)
    case (Pair out st')
    with p Cons.IH[of st'] show ?thesis by (cases out) simp_all
  qed
qed

lemma walkChildrenWith_post_0:
  "I st \<Longrightarrow> post I E (walkChildrenWith resolve lib 0 childDeps dep parentDir st)"
  by (cases childDeps) simp_all

lemma walk_post:
  assumes steps: "stepsPreserve resolve lib I E"
  shows "(\<forall>dep parentDir st. I st \<longrightarrow>
            post I E (walkWith resolve lib fuel dep parentDir st))
       \<and> (\<forall>childDeps dep parentDir st. I st \<longrightarrow>
            post I E (walkChildrenWith resolve lib fuel childDeps dep parentDir st))"
proof (induction fuel)
  case 0
  have "\<forall>childDeps dep parentDir st. I st \<longrightarrow>
          post I E (walkChildrenWith resolve lib 0 childDeps dep parentDir st)"
    by (simp add: walkChildrenWith_post_0)
  with steps show ?case by (blast intro: walkWith_post)
next
  case (Suc fuel)
  then have "\<forall>childDeps dep parentDir st. I st \<longrightarrow>
          post I E (walkChildrenWith resolve lib (Suc fuel) childDeps dep parentDir st)"
    by (blast intro: walkChildrenWith_post)
  with steps show ?case by (blast intro: walkWith_post)
qed

lemma walkTopLevelWith_invariant:
  assumes steps: "stepsPreserve resolve lib I E"
  shows "I st \<Longrightarrow> post I E (walkTopLevelWith resolve lib fuel deps st)"
proof (induction deps arbitrary: st)
  case Nil
  then show ?case by simp
next
  case (Cons d deps)
  let ?r = "walkWith resolve lib fuel \<lparr>dep_name = fst d, dep_version = snd d\<rparr> None st"
  from walk_post[OF steps, of fuel] Cons.prems have p: "post I E ?r" by blast
  show ?case
  proof (cases ?r)
    case (Pair out st')
    with p Cons.IH[of st'] show ?thesis by (cases out) simp_all
  qed
qed

lemma processTopLevel_invariant:
  "stepsPreserve (resolveDependency lib registry) lib I E \<Longrightarrow> I st \<Longrightarrow>
   post I E (processTopLevel fuel lib registry deps st)"
  unfolding processTopLevel_walkWith by (rule walkTopLevelWith_invariant)

lemma processTopLevel_v1_invariant:
  "stepsPreserve (resolveDependency_v1 lib registry) lib I E \<Longrightarrow> I st \<Longrightarrow>
   post I E (processTopLevel_v1 fuel lib registry deps st)"
  unfolding processTopLevel_v1_walkWith by (rule walkTopLevelWith_invariant)

lemma processTopLevel_v3_invariant:
  "stepsPreserve (resolveDependency_v3 writable lib registry) lib I E \<Longrightarrow> I st \<Longrightarrow>
   post I E (processTopLevel_v3 fuel writable lib registry deps st)"
  unfolding processTopLevel_v3_walkWith by (rule walkTopLevelWith_invariant)

subsection \<open>More fuel does not change a result\<close>

lemma walkWith_more_fuel_step:
  assumes "\<And>childDeps st out st'.
      walkChildrenWith resolve lib fuel childDeps dep parentDir st = (out, st') \<Longrightarrow>
      out \<noteq> OutOfFuel \<Longrightarrow>
      walkChildrenWith resolve lib (Suc fuel) childDeps dep parentDir st = (out, st')"
    and "walkWith resolve lib fuel dep parentDir st = (out, st')" and "out \<noteq> OutOfFuel"
  shows "walkWith resolve lib (Suc fuel) dep parentDir st = (out, st')"
  using assms(2,3) assms(1)
  by (auto simp: walkWith.simps Let_def split: option.splits prod.splits sum.splits)

lemma walkChildrenWith_more_fuel_step:
  assumes "\<And>d pd st out st'.
      walkWith resolve lib fuel d pd st = (out, st') \<Longrightarrow> out \<noteq> OutOfFuel \<Longrightarrow>
      walkWith resolve lib (Suc fuel) d pd st = (out, st')"
    and "walkChildrenWith resolve lib (Suc fuel) childDeps dep parentDir st = (out, st')"
    and "out \<noteq> OutOfFuel"
  shows "walkChildrenWith resolve lib (Suc (Suc fuel)) childDeps dep parentDir st = (out, st')"
  using assms(2,3)
proof (induction childDeps arbitrary: st)
  case Nil
  then show ?case by simp
next
  case (Cons c childDeps)
  let ?d = "\<lparr>dep_name = fst c, dep_version = snd c\<rparr>"
  let ?pd = "Some (childParentDirectory lib dep parentDir)"
  obtain o1 s1 where w: "walkWith resolve lib fuel ?d ?pd st = (o1, s1)"
    by (cases "walkWith resolve lib fuel ?d ?pd st") auto
  show ?case
  proof (cases o1)
    case Returned
    with w assms(1) have w': "walkWith resolve lib (Suc fuel) ?d ?pd st = (Returned, s1)" by simp
    from Cons.prems w Returned
    have "walkChildrenWith resolve lib (Suc fuel) childDeps dep parentDir s1 = (out, st')" by simp
    from Cons.IH[OF this Cons.prems(2)] w' show ?thesis by simp
  next
    case (Threw e)
    with w assms(1) have w': "walkWith resolve lib (Suc fuel) ?d ?pd st = (Threw e, s1)" by simp
    from Cons.prems w Threw have "out = Threw e" "st' = s1" by simp_all
    with w' show ?thesis by simp
  next
    case OutOfFuel
    with Cons.prems w show ?thesis by simp
  qed
qed

lemma walkChildrenWith_more_fuel_0:
  "walkChildrenWith resolve lib 0 childDeps dep parentDir st = (out, st') \<Longrightarrow>
   out \<noteq> OutOfFuel \<Longrightarrow>
   walkChildrenWith resolve lib (Suc 0) childDeps dep parentDir st = (out, st')"
  by (cases childDeps) auto

lemma walk_more_fuel:
  "(\<forall>dep parentDir st out st'.
      walkWith resolve lib fuel dep parentDir st = (out, st') \<longrightarrow> out \<noteq> OutOfFuel \<longrightarrow>
      walkWith resolve lib (Suc fuel) dep parentDir st = (out, st'))
   \<and> (\<forall>childDeps dep parentDir st out st'.
      walkChildrenWith resolve lib fuel childDeps dep parentDir st = (out, st') \<longrightarrow>
      out \<noteq> OutOfFuel \<longrightarrow>
      walkChildrenWith resolve lib (Suc fuel) childDeps dep parentDir st = (out, st'))"
proof (induction fuel)
  case 0
  have c: "\<forall>childDeps dep parentDir st out st'.
      walkChildrenWith resolve lib 0 childDeps dep parentDir st = (out, st') \<longrightarrow>
      out \<noteq> OutOfFuel \<longrightarrow>
      walkChildrenWith resolve lib (Suc 0) childDeps dep parentDir st = (out, st')"
    using walkChildrenWith_more_fuel_0 by blast
  then show ?case using walkWith_more_fuel_step[of resolve lib 0] by blast
next
  case (Suc fuel)
  then have c: "\<forall>childDeps dep parentDir st out st'.
      walkChildrenWith resolve lib (Suc fuel) childDeps dep parentDir st = (out, st') \<longrightarrow>
      out \<noteq> OutOfFuel \<longrightarrow>
      walkChildrenWith resolve lib (Suc (Suc fuel)) childDeps dep parentDir st = (out, st')"
    using walkChildrenWith_more_fuel_step[of resolve lib fuel] by blast
  then show ?case using walkWith_more_fuel_step[of resolve lib "Suc fuel"] by blast
qed

lemma walkTopLevelWith_Suc:
  "walkTopLevelWith resolve lib fuel deps st = (out, st') \<Longrightarrow> out \<noteq> OutOfFuel \<Longrightarrow>
   walkTopLevelWith resolve lib (Suc fuel) deps st = (out, st')"
proof (induction deps arbitrary: st)
  case Nil
  then show ?case by simp
next
  case (Cons d deps)
  let ?d = "\<lparr>dep_name = fst d, dep_version = snd d\<rparr>"
  obtain o1 s1 where w: "walkWith resolve lib fuel ?d None st = (o1, s1)"
    by (cases "walkWith resolve lib fuel ?d None st") auto
  show ?case
  proof (cases o1)
    case Returned
    with w walk_more_fuel[of resolve lib fuel]
    have w': "walkWith resolve lib (Suc fuel) ?d None st = (Returned, s1)" by blast
    from Cons.prems w Returned
    have "walkTopLevelWith resolve lib fuel deps s1 = (out, st')" by simp
    from Cons.IH[OF this Cons.prems(2)] w' show ?thesis by simp
  next
    case (Threw e)
    with w walk_more_fuel[of resolve lib fuel]
    have w': "walkWith resolve lib (Suc fuel) ?d None st = (Threw e, s1)" by blast
    from Cons.prems w Threw have "out = Threw e" "st' = s1" by simp_all
    with w' show ?thesis by simp
  next
    case OutOfFuel
    with Cons.prems w show ?thesis by simp
  qed
qed

lemma walkTopLevelWith_more_fuel:
  "walkTopLevelWith resolve lib fuel deps st = (out, st') \<Longrightarrow> out \<noteq> OutOfFuel \<Longrightarrow>
   walkTopLevelWith resolve lib (fuel + extra) deps st = (out, st')"
  by (induction extra) (simp_all add: walkTopLevelWith_Suc)

lemma constructInstallationPlan_more_fuel:
  "constructInstallationPlan fuel lib registry deps = Some result \<Longrightarrow>
   constructInstallationPlan (fuel + extra) lib registry deps = Some result"
proof -
  assume r: "constructInstallationPlan fuel lib registry deps = Some result"
  obtain out st where w: "processTopLevel fuel lib registry deps initialState = (out, st)"
    by (cases "processTopLevel fuel lib registry deps initialState") auto
  with r have "out \<noteq> OutOfFuel"
    by (auto simp: constructInstallationPlan_def runInstallationPlan_def)
  with w have "processTopLevel (fuel + extra) lib registry deps initialState = (out, st)"
    by (simp add: processTopLevel_walkWith walkTopLevelWith_more_fuel)
  with r w show ?thesis
    by (simp add: constructInstallationPlan_def runInstallationPlan_def)
qed

subsection \<open>The hoisting pass\<close>

lemma find_item_None:
  "find (\<lambda>item. name item = nm \<and> version item = ver \<and> parentDirectory item = pd) plan = None
   \<longleftrightarrow> \<lparr>name = nm, version = ver, parentDirectory = pd\<rparr> \<notin> set plan"
proof -
  have "\<And>item. (name item = nm \<and> version item = ver \<and> parentDirectory item = pd)
          = (item = \<lparr>name = nm, version = ver, parentDirectory = pd\<rparr>)"
    by auto
  then show ?thesis by (auto simp: find_None_iff)
qed

lemma hoistVersion_insert:
  "hoistVersion plan pkgVersion =
     (if rootItemOf pkgVersion \<in> set plan then plan else plan @ [rootItemOf pkgVersion])"
  by (cases "splitOn CHR ''@'' pkgVersion")
     (simp add: hoistVersion_def rootItemOf_def Let_def find_item_None)

lemma set_hoistVersions:
  "set (foldl hoistVersion plan ks) = set plan \<union> rootItemOf ` set ks"
  by (induction ks arbitrary: plan) (auto simp: hoistVersion_insert)

lemma hoistVersions_present:
  "rootItemOf ` set ks \<subseteq> set plan \<Longrightarrow> foldl hoistVersion plan ks = plan"
  by (induction ks arbitrary: plan) (auto simp: hoistVersion_insert)

lemma distinct_hoistVersions:
  "distinct plan \<Longrightarrow> distinct (foldl hoistVersion plan ks)"
  by (induction ks arbitrary: plan) (auto simp: hoistVersion_insert)

lemma hoistVersions_append:
  "\<exists>hoisted. foldl hoistVersion plan ks = plan @ hoisted \<and> set hoisted \<subseteq> rootItemOf ` set ks"
proof (induction ks arbitrary: plan)
  case Nil
  show ?case by simp
next
  case (Cons k ks)
  from Cons[of "hoistVersion plan k"] show ?case
    by (auto simp: hoistVersion_insert split: if_splits)
qed

lemma splitOn_no_separator: "c \<notin> set s \<Longrightarrow> splitOn c s = (s, [])"
  by (induction s) auto

lemma splitOn_first:
  "c \<notin> set nm \<Longrightarrow>
   splitOn c (nm @ c # rest) = (nm, fst (splitOn c rest) # snd (splitOn c rest))"
  by (induction nm) (auto split: prod.splits)

lemma rootItemOf_key:
  "CHR ''@'' \<notin> set nm \<Longrightarrow> CHR ''@'' \<notin> set ver \<Longrightarrow>
   rootItemOf (nm @ CHR ''@'' # ver) = \<lparr>name = nm, version = Some ver, parentDirectory = Some ''root''\<rparr>"
  by (simp add: rootItemOf_def splitOn_first splitOn_no_separator)

lemma hoistingPass_root_entry:
  "key \<in> fst ` set ledger \<Longrightarrow> rootItemOf key \<in> set (hoistingPass ledger plan)"
  by (simp add: hoistingPass_def set_hoistVersions)

lemma splitOn_key:
  "CHR ''@'' \<notin> set nm \<Longrightarrow> CHR ''@'' \<notin> set ver \<Longrightarrow>
   splitOn CHR ''@'' (nm @ CHR ''@'' # ver) = (nm, [ver])"
  by (simp add: splitOn_first splitOn_no_separator)

subsection \<open>Effect of the steps on the state\<close>

lemma getCachedPackageInfo_frame:
  "getCachedPackageInfo registry nm st = (r, st') \<Longrightarrow>
   installationPlan st' = installationPlan st \<and> dependencyMap st' = dependencyMap st
   \<and> sightings st' = sightings st \<and> PlannerState.more st' = PlannerState.more st"
  by (auto simp: getCachedPackageInfo_def Let_def split: option.splits FetchResult.splits if_splits)

lemma getCachedPackageInfo_ledger:
  "getCachedPackageInfo registry nm st = (r, st') \<Longrightarrow>
   versionUsageCount st' = versionUsageCount st"
  by (auto simp: getCachedPackageInfo_def Let_def split: option.splits FetchResult.splits if_splits)

lemma resolveDependency_plan:
  assumes "resolveDependency lib registry dep parentDir st = (r, st')"
  shows "dependencyMap st' =
           AList.update (depKeyOf parentDir (dep_name dep))
             \<lparr>pending_name = dep_name dep, versionRange = Some (dep_version dep),
              pending_parentDirectory = parentDir\<rparr> (dependencyMap st)
       \<and> sightings st' = sightings st
       \<and> (case r of
            Inl err \<Rightarrow> installationPlan st' = installationPlan st
                       \<and> versionUsageCount st' = versionUsageCount st
          | Inr childDeps \<Rightarrow>
              (\<exists>v. semver_satisfies lib v (dep_version dep) \<and>
                   installationPlan st' = installationPlan st @
                     [\<lparr>name = dep_name dep, version = Some v, parentDirectory = parentDir\<rparr>] \<and>
                   versionUsageCount st' =
                     trackVersionUsage (dep_name dep) v parentDir (versionUsageCount st)))"
proof -
  let ?st1 = "st\<lparr>dependencyMap :=
                  AList.update (depKeyOf parentDir (dep_name dep))
                    \<lparr>pending_name = dep_name dep, versionRange = Some (dep_version dep),
                     pending_parentDirectory = parentDir\<rparr>
                    (dependencyMap st)\<rparr>"
  obtain g st2 where g: "getCachedPackageInfo registry (dep_name dep) ?st1 = (g, st2)"
    by (cases "getCachedPackageInfo registry (dep_name dep) ?st1") auto
  note fr = getCachedPackageInfo_frame[OF g] getCachedPackageInfo_ledger[OF g]
  from assms g fr show ?thesis
    by (auto simp: resolveDependency_def Let_def split: sum.splits option.splits
             dest: resolveVersion_Inr)
qed

lemma getCachedPackageInfo_hit:
  "map_of (packageInfoCache st) nm = Some info \<Longrightarrow>
   getCachedPackageInfo registry nm st = (Inr info, st)"
  by (simp add: getCachedPackageInfo_def)

lemma getCachedPackageInfo_miss:
  assumes "map_of (packageInfoCache st) nm = None"
    and "getCachedPackageInfo registry nm st = (r, st')"
  shows "registryRequests st' = registryRequests st @ [nm]
       \<and> (case r of
            Inl err \<Rightarrow> packageInfoCache st' = packageInfoCache st
                       \<and> (\<forall>data. registry nm \<noteq> Response 200 data)
                       \<and> (err = FetchRejected nm \<or> err = FetchFailed nm)
          | Inr info \<Rightarrow>
              (\<exists>data. registry nm = Response 200 data \<and> info = relevantData data) \<and>
              packageInfoCache st' = AList.update nm info (packageInfoCache st))"
  using assms
  by (auto simp: getCachedPackageInfo_def Let_def split: FetchResult.splits if_splits)

lemma getCachedPackageInfo_miss_error:
  assumes "map_of (packageInfoCache st) nm = None"
    and "getCachedPackageInfo registry nm st = (Inl err, st')"
  shows "(registry nm = NetworkFailure \<and> err = FetchRejected nm)
       \<or> (\<exists>status data. registry nm = Response status data \<and> status \<noteq> 200 \<and> err = FetchFailed nm)"
  using assms
  by (auto simp: getCachedPackageInfo_def Let_def split: FetchResult.splits if_splits)

text \<open>\<open>resolveDependency\<close> seen from the cache: the fetch, then the pure rest.\<close>

lemma resolveDependency_cache:
  assumes "resolveDependency lib registry dep parentDir st = (r, st')"
  shows "\<exists>g st2. getCachedPackageInfo registry (dep_name dep)
                   (st\<lparr>dependencyMap :=
                      AList.update (depKeyOf parentDir (dep_name dep))
                        \<lparr>pending_name = dep_name dep, versionRange = Some (dep_version dep),
                         pending_parentDirectory = parentDir\<rparr>
                        (dependencyMap st)\<rparr>) = (g, st2)
          \<and> registryRequests st' = registryRequests st2
          \<and> packageInfoCache st' = packageInfoCache st2
          \<and> (case g of
                Inl err \<Rightarrow> r = Inl err
              | Inr info \<Rightarrow>
                  (case resolveVersion lib (map fst (versions info)) (dep_version dep) of
                     Inl err \<Rightarrow> r = Inl err
                   | Inr v \<Rightarrow>
                       (case map_of (versions info) v of
                          None \<Rightarrow> r = Inl TypeError
                        | Some vi \<Rightarrow> \<exists>childDeps. r = Inr childDeps)))"
  using assms
  by (auto simp: resolveDependency_def Let_def split: prod.splits sum.splits option.splits)

lemma set_update_subset: "set (AList.update k v al) \<subseteq> insert (k, v) (set al)"
  by (induction al) auto

lemma map_of_snoc_old:
  "map_of al k = Some v \<Longrightarrow> map_of (al @ [(k', v')]) k = Some v"
  by (simp add: map_add_Some_iff)

lemma map_of_snoc_new:
  "k \<notin> fst ` set al \<Longrightarrow> map_of (al @ [(k, v)]) k = Some v"
  by (simp add: map_add_Some_iff map_of_eq_None_iff)

lemma trackVersionUsage_keys:
  "fst ` set (trackVersionUsage nm v parentDir ledger) = insert (nm @ ''@'' @ v) (fst ` set ledger)"
  by (simp add: trackVersionUsage_def Let_def dom_update)

subsection \<open>The concrete registry\<close>

lemma demoRegistry_a:
  "demoRegistry ''a'' =
     Response 200
       \<lparr>versions = [plainVersion ''1.0.0'' None, plainVersion ''1.2.0'' None,
                    plainVersion ''2.0.0'' None],
        otherPackageFields = [(''description'', ''\"package a\"'')]\<rparr>"
  by (simp add: demoRegistry_def demoPackages_def)

lemma demo_plan_a:
  "constructInstallationPlan fuel demoLibraries demoRegistry [(''a'', ''^1.0.0'')] =
     Some (Inr [\<lparr>name = ''a'', version = Some ''1.2.0'', parentDirectory = None\<rparr>,
                \<lparr>name = ''a'', version = Some ''1.2.0'', parentDirectory = Some ''root''\<rparr>])"
  by (simp add: constructInstallationPlan_def runInstallationPlan_def processDependency.simps
        initialState_def recordSighting_def resolveDependency_def getCachedPackageInfo_def
        demoRegistry_a depKeyOf_def orRoot_def Let_def relevantData_def plainVersion_def
        resolveVersion_def maxSatisfying_def maxSatisfyingStep_def demoLibraries_def
        trackVersionUsage_def hoistingPass_def hoistVersion_def)

lemma demoRegistry_p:
  "demoRegistry ''p'' =
     Response 200
       \<lparr>versions = [plainVersion ''1.0.0'' None,
                    plainVersion ''__proto__'' (Some [(''c'', ''^1.0.0'')])],
        otherPackageFields = [(''description'', ''\"package p\"'')]\<rparr>"
  by (simp add: demoRegistry_def demoPackages_def)

lemma demo_plan_c_b:
  "constructInstallationPlan 5 demoLibraries demoRegistry [(''c'', ''^2.0.0''), (''b'', ''^1.0.0'')] =
     Some (Inr [\<lparr>name = ''c'', version = Some ''2.0.0'', parentDirectory = None\<rparr>,
                \<lparr>name = ''b'', version = Some ''1.0.0'', parentDirectory = None\<rparr>,
                \<lparr>name = ''c'', version = Some ''1.0.0'', parentDirectory = Some ''b''\<rparr>,
                \<lparr>name = ''c'', version = Some ''2.0.0'', parentDirectory = Some ''root''\<rparr>,
                \<lparr>name = ''b'', version = Some ''1.0.0'', parentDirectory = Some ''root''\<rparr>,
                \<lparr>name = ''c'', version = Some ''1.0.0'', parentDirectory = Some ''root''\<rparr>])"
  by code_simp

lemma demo_walk_c_b:
  "installationPlan (snd (processTopLevel 5 demoLibraries demoRegistry
      [(''c'', ''^2.0.0''), (''b'', ''^1.0.0'')] initialState)) =
     [\<lparr>name = ''c'', version = Some ''2.0.0'', parentDirectory = None\<rparr>,
      \<lparr>name = ''b'', version = Some ''1.0.0'', parentDirectory = None\<rparr>,
      \<lparr>name = ''c'', version = Some ''1.0.0'', parentDirectory = Some ''b''\<rparr>]"
  by code_simp

lemma demo_cache_c:
  "map_of (packageInfoCache (snd (runInstallationPlan 5 demoLibraries demoRegistry
      [(''c'', ''^2.0.0''), (''b'', ''^1.0.0'')]))) ''c'' =
   Some \<lparr>versions = [(''1.0.0'', \<lparr>dependencies = None, otherVersionFields = []\<rparr>),
                      (''2.0.0'', \<lparr>dependencies = None, otherVersionFields = []\<rparr>)],
         otherPackageFields = []\<rparr>"
  by code_simp

lemma demo_requests_c_b:
  "registryRequests (snd (runInstallationPlan 5 demoLibraries demoRegistry
      [(''c'', ''^2.0.0''), (''b'', ''^1.0.0'')])) = [''c'', ''b'']"
  by code_simp

subsection \<open>Uniqueness of plan entries\<close>

lemma slotsDistinct_steps: "stepsPreserve (resolveDependency lib registry) lib slotsDistinct (\<lambda>err. slotsDistinct)"
  unfolding stepsPreserve_def
proof (intro conjI allI impI)
  fix dep :: Dependency and parentDir st existing
  assume "slotsDistinct st"
    and "map_of (dependencyMap st) (depKeyOf parentDir (dep_name dep)) = Some existing"
  then show "slotsDistinct (mergeVersionRanges lib (depKeyOf parentDir (dep_name dep)) existing dep
             (recordSighting (depKeyOf parentDir (dep_name dep)) dep st))"
    by (auto simp: slotsDistinct_def mergeVersionRanges_def recordSighting_def update_conv')
next
  fix dep :: Dependency and parentDir st r st'
  assume inv: "slotsDistinct st"
    and new: "map_of (dependencyMap st) (depKeyOf parentDir (dep_name dep)) = None"
    and res: "resolveDependency lib registry dep parentDir
          (recordSighting (depKeyOf parentDir (dep_name dep)) dep st) = (r, st')"
  note eff = resolveDependency_plan[OF res]
  show "case r of Inl err \<Rightarrow> slotsDistinct st' | Inr childDeps \<Rightarrow> slotsDistinct st'"
  proof (cases r)
    case (Inl err)
    with eff inv show ?thesis
      by (auto simp: slotsDistinct_def recordSighting_def update_conv')
  next
    case (Inr childDeps)
    with eff obtain v where
      plan: "installationPlan st' = installationPlan st @
               [\<lparr>name = dep_name dep, version = Some v, parentDirectory = parentDir\<rparr>]"
      by (auto simp: recordSighting_def)
    have fresh: "depKeyOf parentDir (dep_name dep) \<notin> slotKeyOf ` set (installationPlan st)"
      using inv new by (auto simp: slotsDistinct_def)
    from eff inv plan fresh Inr show ?thesis
      by (auto simp: slotsDistinct_def slotKeyOf_def recordSighting_def update_conv')
  qed
qed

lemma slotsDistinct_initial: "slotsDistinct initialState"
  by (simp add: slotsDistinct_def initialState_def)

lemma walk_slotsDistinct:
  "slotsDistinct (snd (processTopLevel fuel lib registry deps initialState))"
  using processTopLevel_invariant[OF slotsDistinct_steps slotsDistinct_initial,
          where lib=lib and registry=registry and fuel=fuel and deps=deps]
  by (simp add: post_same)

lemma slotKeyOf_locationTriple:
  "slotKeyOf item = (case locationTriple item of (nm, ver, loc) \<Rightarrow> loc @ ''##'' @ nm)"
  by (simp add: slotKeyOf_def locationTriple_def installLocation_def depKeyOf_def)

lemma distinct_map_factor:
  assumes "distinct (map f xs)" and "\<And>x. f x = g (h x)"
  shows "distinct (map h xs)"
proof -
  from assms(2) have "f = g \<circ> h" by (simp add: fun_eq_iff)
  with assms(1) have "distinct xs" and "inj_on (g \<circ> h) (set xs)"
    by (simp_all add: distinct_map)
  then show ?thesis by (simp add: distinct_map inj_on_imageI2)
qed

lemma walk_locations_distinct:
  "distinct (map locationTriple
     (installationPlan (snd (processTopLevel fuel lib registry deps initialState))))"
  using walk_slotsDistinct[of fuel lib registry deps]
  unfolding slotsDistinct_def
  by (intro distinct_map_factor[where f=slotKeyOf and h=locationTriple,
        OF _ slotKeyOf_locationTriple]) simp

lemma run_plan_distinct:
  "distinct (installationPlan (snd (runInstallationPlan fuel lib registry deps)))"
proof -
  from walk_locations_distinct[of fuel lib registry deps]
  have "distinct (installationPlan (snd (processTopLevel fuel lib registry deps initialState)))"
    by (simp add: distinct_map)
  then show ?thesis
    by (auto simp: runInstallationPlan_def hoistingPass_def distinct_hoistVersions
             split: prod.splits Outcome.splits)
qed

subsection \<open>Ranges of the plan entries\<close>

lemma satisfiesFirstRange_snoc:
  "satisfiesFirstRange lib history item \<Longrightarrow> satisfiesFirstRange lib (history @ [(k, dep)]) item"
  by (auto simp: satisfiesFirstRange_def map_add_Some_iff split: option.splits)

lemma rangesSatisfied_steps:
  "stepsPreserve (resolveDependency lib registry) lib (rangesSatisfied lib) (\<lambda>err. rangesSatisfied lib)"
  unfolding stepsPreserve_def
proof (intro conjI allI impI)
  fix dep :: Dependency and parentDir st existing
  assume inv: "rangesSatisfied lib st"
    and old: "map_of (dependencyMap st) (depKeyOf parentDir (dep_name dep)) = Some existing"
  from old have "depKeyOf parentDir (dep_name dep) \<in> fst ` set (dependencyMap st)"
    by (metis map_of_eq_None_iff option.distinct(1))
  with inv show "rangesSatisfied lib
            (mergeVersionRanges lib (depKeyOf parentDir (dep_name dep)) existing dep
               (recordSighting (depKeyOf parentDir (dep_name dep)) dep st))"
    by (auto simp: rangesSatisfied_def mergeVersionRanges_def recordSighting_def dom_update
                   satisfiesFirstRange_snoc)
next
  fix dep :: Dependency and parentDir and st :: HoistingState and r st'
  let ?k = "depKeyOf parentDir (dep_name dep)"
  assume inv: "rangesSatisfied lib st"
    and new: "map_of (dependencyMap st) ?k = None"
    and res: "resolveDependency lib registry dep parentDir (recordSighting ?k dep st) = (r, st')"
  note eff = resolveDependency_plan[OF res]
  from eff have sight: "sightings st' = sightings st @ [(?k, dep)]"
    and slots: "fst ` set (dependencyMap st') = insert ?k (fst ` set (dependencyMap st))"
    by (simp_all add: recordSighting_def dom_update)
  from new inv have fresh: "?k \<notin> fst ` set (sightings st)"
    by (auto simp: rangesSatisfied_def map_of_eq_None_iff)
  have old_items: "\<forall>item\<in>set (installationPlan st). satisfiesFirstRange lib (sightings st') item"
    using inv sight by (simp add: rangesSatisfied_def satisfiesFirstRange_snoc)
  have keys: "fst ` set (sightings st') \<subseteq> fst ` set (dependencyMap st')"
    using inv sight slots by (auto simp: rangesSatisfied_def)
  have "rangesSatisfied lib st'"
  proof (cases r)
    case (Inl err)
    with eff have "installationPlan st' = installationPlan st"
      "versionUsageCount st' = versionUsageCount st"
      by (simp_all add: recordSighting_def)
    with old_items keys inv show ?thesis by (simp add: rangesSatisfied_def)
  next
    case (Inr childDeps)
    with eff obtain v where v: "semver_satisfies lib v (dep_version dep)"
      and plan: "installationPlan st' = installationPlan st @
               [\<lparr>name = dep_name dep, version = Some v, parentDirectory = parentDir\<rparr>]"
      and ledger: "versionUsageCount st' =
             trackVersionUsage (dep_name dep) v parentDir (versionUsageCount st)"
      by (auto simp: recordSighting_def)
    have first: "map_of (sightings st') ?k = Some dep"
      unfolding sight by (rule map_of_snoc_new[OF fresh])
    have item: "satisfiesFirstRange lib (sightings st')
            \<lparr>name = dep_name dep, version = Some v, parentDirectory = parentDir\<rparr>"
      using v first by (simp add: satisfiesFirstRange_def)
    have "fst ` set (versionUsageCount st') = ledgerKeyOf ` set (installationPlan st')"
      using inv unfolding ledger plan trackVersionUsage_keys
      by (auto simp: rangesSatisfied_def ledgerKeyOf_def)
    with old_items keys item plan show ?thesis by (simp add: rangesSatisfied_def)
  qed
  then show "case r of Inl err \<Rightarrow> rangesSatisfied lib st' | Inr childDeps \<Rightarrow> rangesSatisfied lib st'"
    by (cases r) auto
qed

lemma walk_rangesSatisfied:
  "rangesSatisfied lib (snd (processTopLevel fuel lib registry deps initialState))"
proof -
  have "rangesSatisfied lib initialState" by (simp add: rangesSatisfied_def initialState_def)
  from processTopLevel_invariant[OF rangesSatisfied_steps this, where fuel=fuel and deps=deps
         and registry=registry]
  show ?thesis by (simp add: post_same)
qed

subsection \<open>Values of the cache\<close>

lemma list_all_map_cleared:
  "list_all (\<lambda>(v, vd). otherVersionFields vd = [])
     (map (\<lambda>(k, vd). (k, \<lparr>dependencies = f vd, otherVersionFields = []\<rparr>)) vs)"
  by (induction vs) auto

lemma onlyDependencies_relevantData: "onlyDependencies (relevantData allData)"
  by (simp add: onlyDependencies_def relevantData_def list_all_map_cleared)

lemma onlyDependencies_minimalData: "onlyDependencies (minimalData data)"
  by (simp add: onlyDependencies_def minimalData_def list_all_map_cleared)

lemma minimalData_keeps_dependencies:
  "map (\<lambda>(v, vd). (v, dependencies vd)) (versions (minimalData allData))
     = map (\<lambda>(v, vd). (v, Some (case dependencies vd of None \<Rightarrow> [] | Some ds \<Rightarrow> ds)))
         (filter (\<lambda>(v, vd). v \<noteq> ''__proto__'') (versions allData))"
  by (simp add: minimalData_def case_prod_unfold comp_def)

lemma relevantData_keeps_dependencies:
  "map (\<lambda>(v, vd). (v, dependencies vd)) (versions (relevantData allData))
     = map (\<lambda>(v, vd). (v, dependencies vd)) (versions allData)"
  by (simp add: relevantData_def case_prod_unfold comp_def)

lemma cacheMinimal_steps: "stepsPreserve (resolveDependency lib registry) lib cacheMinimal (\<lambda>err. cacheMinimal)"
  unfolding stepsPreserve_def
proof (intro conjI allI impI)
  fix dep :: Dependency and parentDir st existing
  assume "cacheMinimal st"
  then show "cacheMinimal (mergeVersionRanges lib (depKeyOf parentDir (dep_name dep)) existing dep
             (recordSighting (depKeyOf parentDir (dep_name dep)) dep st))"
    by (simp add: cacheMinimal_def mergeVersionRanges_def recordSighting_def)
next
  fix dep :: Dependency and parentDir and st :: HoistingState and r st'
  let ?st0 = "recordSighting (depKeyOf parentDir (dep_name dep)) dep st"
  let ?st1 = "?st0\<lparr>dependencyMap :=
                      AList.update (depKeyOf parentDir (dep_name dep))
                        \<lparr>pending_name = dep_name dep, versionRange = Some (dep_version dep),
                         pending_parentDirectory = parentDir\<rparr>
                        (dependencyMap ?st0)\<rparr>"
  assume inv: "cacheMinimal st"
    and res: "resolveDependency lib registry dep parentDir ?st0 = (r, st')"
  from resolveDependency_cache[OF res] obtain g st2 where
    g: "getCachedPackageInfo registry (dep_name dep) ?st1 = (g, st2)"
    and same: "packageInfoCache st' = packageInfoCache st2"
    by blast
  have inv1: "cacheMinimal ?st1" using inv by (simp add: cacheMinimal_def recordSighting_def)
  have "cacheMinimal st2"
  proof (cases "map_of (packageInfoCache ?st1) (dep_name dep)")
    case (Some info)
    from getCachedPackageInfo_hit[OF Some, of registry] g inv1 show ?thesis by auto
  next
    case None
    from getCachedPackageInfo_miss[OF None g] inv1 set_update_subset show ?thesis
      by (cases g) (fastforce simp: cacheMinimal_def list_all_iff onlyDependencies_relevantData)+
  qed
  with same have "cacheMinimal st'" by (simp add: cacheMinimal_def)
  then show "case r of Inl err \<Rightarrow> cacheMinimal st' | Inr childDeps \<Rightarrow> cacheMinimal st'"
    by (cases r) auto
qed

lemma run_cacheMinimal: "cacheMinimal (snd (runInstallationPlan fuel lib registry deps))"
proof -
  have "cacheMinimal initialState" by (simp add: cacheMinimal_def initialState_def)
  from processTopLevel_invariant[OF cacheMinimal_steps this, where fuel=fuel and deps=deps
         and lib=lib and registry=registry]
  have "cacheMinimal (snd (processTopLevel fuel lib registry deps initialState))"
    by (simp add: post_same)
  then show ?thesis
    by (auto simp: runInstallationPlan_def cacheMinimal_def split: prod.splits Outcome.splits)
qed

subsection \<open>Propagation of errors\<close>

lemma versions_relevantData: "map fst (versions (relevantData data)) = map fst (versions data)"
  by (simp add: relevantData_def case_prod_unfold comp_def)

lemma cacheFaithful_lookup:
  "cacheFaithful registry st \<Longrightarrow> map_of (packageInfoCache st) nm = Some info \<Longrightarrow>
   \<exists>data. registry nm = Response 200 data \<and> info = relevantData data"
  by (auto simp: cacheFaithful_def list_all_iff dest!: map_of_SomeD)

lemma getCachedPackageInfo_faithful:
  assumes cf: "cacheFaithful registry st"
    and g: "getCachedPackageInfo registry nm st = (g, st')"
  shows "cacheFaithful registry st' \<and>
         (case g of
            Inr info \<Rightarrow> \<exists>data. registry nm = Response 200 data \<and> info = relevantData data
          | Inl err \<Rightarrow>
              (registry nm = NetworkFailure \<and> err = FetchRejected nm)
            \<or> (\<exists>status data. registry nm = Response status data \<and> status \<noteq> 200 \<and> err = FetchFailed nm))"
proof (cases "map_of (packageInfoCache st) nm")
  case (Some info)
  from getCachedPackageInfo_hit[OF Some, of registry] g cacheFaithful_lookup[OF cf Some] cf
  show ?thesis by auto
next
  case None
  note miss = getCachedPackageInfo_miss[OF None g]
  show ?thesis
  proof (cases g)
    case (Inl err)
    with miss cf getCachedPackageInfo_miss_error[OF None] g show ?thesis
      by (auto simp: cacheFaithful_def)
  next
    case (Inr info)
    with miss obtain data where d: "registry nm = Response 200 data" "info = relevantData data"
      and c: "packageInfoCache st' = AList.update nm info (packageInfoCache st)"
      by auto
    from cf c d set_update_subset[of nm info "packageInfoCache st"]
    have "cacheFaithful registry st'"
      by (fastforce simp: cacheFaithful_def list_all_iff)
    with d Inr show ?thesis by auto
  qed
qed

lemma nodeFailure_resolved:
  assumes "registry (dep_name dep) = Response 200 data"
    and "resolveVersion lib (map fst (versions (relevantData data))) (dep_version dep) = Inr v"
  shows "nodeFailure lib registry dep = None"
  using assms resolveVersion_Inr[OF assms(2)]
  by (auto simp: nodeFailure_def versions_relevantData list_ex_iff)

lemma nodeFailure_unresolved:
  assumes "registry (dep_name dep) = Response 200 data"
    and "resolveVersion lib (map fst (versions (relevantData data))) (dep_version dep) = Inl err"
  shows "nodeFailure lib registry dep = None \<or> nodeFailure lib registry dep = Some err"
  using assms resolveVersion_Inl[OF assms(2)]
  by (auto simp: nodeFailure_def)

lemma nodeFailure_fetch:
  assumes "(registry (dep_name dep) = NetworkFailure \<and> err = FetchRejected (dep_name dep))
       \<or> (\<exists>status data. registry (dep_name dep) = Response status data \<and> status \<noteq> 200
             \<and> err = FetchFailed (dep_name dep))"
  shows "nodeFailure lib registry dep = Some err"
  using assms by (auto simp: nodeFailure_def)

text \<open>The failure of the node that \<open>resolveDependency\<close> resolves, read off its result.\<close>

lemma resolveDependency_failure:
  assumes cf: "cacheFaithful registry st"
    and res: "resolveDependency lib registry dep parentDir st = (r, st')"
  shows "cacheFaithful registry st' \<and>
         (case r of
            Inr childDeps \<Rightarrow> nodeFailure lib registry dep = None
          | Inl err \<Rightarrow> nodeFailure lib registry dep = None \<or> nodeFailure lib registry dep = Some err)"
proof -
  let ?st1 = "st\<lparr>dependencyMap :=
                      AList.update (depKeyOf parentDir (dep_name dep))
                        \<lparr>pending_name = dep_name dep, versionRange = Some (dep_version dep),
                         pending_parentDirectory = parentDir\<rparr>
                        (dependencyMap st)\<rparr>"
  from resolveDependency_cache[OF res] obtain g st2 where
    g: "getCachedPackageInfo registry (dep_name dep) ?st1 = (g, st2)"
    and same: "packageInfoCache st' = packageInfoCache st2"
    and rest: "(case g of
                Inl err \<Rightarrow> r = Inl err
              | Inr info \<Rightarrow>
                  (case resolveVersion lib (map fst (versions info)) (dep_version dep) of
                     Inl err \<Rightarrow> r = Inl err
                   | Inr v \<Rightarrow>
                       (case map_of (versions info) v of
                          None \<Rightarrow> r = Inl TypeError
                        | Some vi \<Rightarrow> \<exists>childDeps. r = Inr childDeps)))"
    by blast
  have cf1: "cacheFaithful registry ?st1" using cf by (simp add: cacheFaithful_def)
  note fa = getCachedPackageInfo_faithful[OF cf1 g]
  from fa same have cf': "cacheFaithful registry st'" by (simp add: cacheFaithful_def)
  have "(case r of
            Inr childDeps \<Rightarrow> nodeFailure lib registry dep = None
          | Inl err \<Rightarrow> nodeFailure lib registry dep = None \<or> nodeFailure lib registry dep = Some err)"
  proof (cases g)
    case (Inl err)
    with rest have r: "r = Inl err" by simp
    from fa Inl have "nodeFailure lib registry dep = Some err"
      by (intro nodeFailure_fetch) simp
    with r show ?thesis by simp
  next
    case (Inr info)
    with fa obtain data where d: "registry (dep_name dep) = Response 200 data"
      "info = relevantData data" by auto
    show ?thesis
    proof (cases "resolveVersion lib (map fst (versions info)) (dep_version dep)")
      case (Inl err)
      with rest Inr have r: "r = Inl err" by simp
      from nodeFailure_unresolved[where registry=registry and dep=dep and lib=lib and err=err, OF d(1)] Inl d(2) r
      show ?thesis by simp
    next
      case v: (Inr v)
      from nodeFailure_resolved[where registry=registry and dep=dep and lib=lib and v=v, OF d(1)] v d(2)
      have "nodeFailure lib registry dep = None" by simp
      with rest Inr v show ?thesis by (cases r) (auto split: option.splits)
    qed
  qed
  with cf' show ?thesis by simp
qed

lemma failuresAmong_steps:
  "stepsPreserve (resolveDependency lib registry) lib (failuresAmong lib registry {None})
     (\<lambda>err. failuresAmong lib registry {None, Some err})"
  unfolding stepsPreserve_def
proof (intro conjI allI impI)
  fix dep :: Dependency and parentDir st existing
  let ?k = "depKeyOf parentDir (dep_name dep)"
  assume inv: "failuresAmong lib registry {None} st"
    and old: "map_of (dependencyMap st) ?k = Some existing"
  from old have "?k \<in> fst ` set (dependencyMap st)"
    by (metis map_of_eq_None_iff option.distinct(1))
  with inv have "?k \<in> fst ` set (sightings st)" by (auto simp: failuresAmong_def)
  then have seen: "map_of (sightings st) ?k \<noteq> None" by (simp add: map_of_eq_None_iff)
  have first: "map_of (sightings st @ [(?k, dep)]) k' = map_of (sightings st) k'" for k'
    using seen by (cases "k' = ?k") (auto simp: map_add_def split: option.splits)
  from inv show "failuresAmong lib registry {None}
                   (mergeVersionRanges lib ?k existing dep (recordSighting ?k dep st))"
    by (auto simp: failuresAmong_def mergeVersionRanges_def recordSighting_def dom_update first
                   cacheFaithful_def simp del: map_of_append)
next
  fix dep :: Dependency and parentDir and st :: HoistingState and r st'
  let ?k = "depKeyOf parentDir (dep_name dep)"
  let ?st0 = "recordSighting ?k dep st"
  assume inv: "failuresAmong lib registry {None} st"
    and new: "map_of (dependencyMap st) ?k = None"
    and res: "resolveDependency lib registry dep parentDir ?st0 = (r, st')"
  note eff = resolveDependency_plan[OF res]
  from eff have sight: "sightings st' = sightings st @ [(?k, dep)]"
    and slots: "fst ` set (dependencyMap st') = insert ?k (fst ` set (dependencyMap st))"
    by (simp_all add: recordSighting_def dom_update)
  have cf0: "cacheFaithful registry ?st0"
    using inv by (simp add: failuresAmong_def cacheFaithful_def recordSighting_def)
  note fail = resolveDependency_failure[OF cf0 res]
  have keys: "fst ` set (dependencyMap st') \<subseteq> fst ` set (sightings st')"
    using inv slots sight by (auto simp: failuresAmong_def)
  have others: "nodeFailure lib registry d = None \<or> d = dep"
    if "map_of (sightings st') k = Some d" for k d
    using that inv unfolding sight
    by (auto simp: failuresAmong_def map_add_Some_iff split: if_splits)
  show "case r of Inl err \<Rightarrow> failuresAmong lib registry {None, Some err} st'
        | Inr childDeps \<Rightarrow> failuresAmong lib registry {None} st'"
  proof (cases r)
    case (Inl err)
    with fail have "nodeFailure lib registry dep = None \<or> nodeFailure lib registry dep = Some err"
      by simp
    with others have "\<forall>k d. map_of (sightings st') k = Some d \<longrightarrow>
        nodeFailure lib registry d \<in> {None, Some err}" by blast
    with keys fail Inl show ?thesis by (simp add: failuresAmong_def)
  next
    case (Inr childDeps)
    with fail have "nodeFailure lib registry dep = None" by simp
    with others have "\<forall>k d. map_of (sightings st') k = Some d \<longrightarrow>
        nodeFailure lib registry d \<in> {None}" by blast
    with keys fail Inr show ?thesis by (simp add: failuresAmong_def)
  qed
qed

lemma failuresAmong_sighted:
  "failuresAmong lib registry allowed st \<Longrightarrow> map_of (sightings st) k = Some dep \<Longrightarrow>
   nodeFailure lib registry dep \<in> allowed"
  by (simp add: failuresAmong_def)

lemma walk_failures:
  "post (failuresAmong lib registry {None}) (\<lambda>err. failuresAmong lib registry {None, Some err})
     (processTopLevel fuel lib registry deps initialState)"
proof -
  have "failuresAmong lib registry {None} initialState"
    by (simp add: failuresAmong_def initialState_def cacheFaithful_def)
  from processTopLevel_invariant[OF failuresAmong_steps this] show ?thesis .
qed

lemma walk_failure_throws:
  assumes "map_of (sightings (snd (processTopLevel fuel lib registry deps initialState))) slot = Some dep"
    and "nodeFailure lib registry dep = Some err"
  shows "fst (processTopLevel fuel lib registry deps initialState) = Threw err"
proof -
  obtain out st where w: "processTopLevel fuel lib registry deps initialState = (out, st)"
    by (cases "processTopLevel fuel lib registry deps initialState") auto
  from assms(1) w have s: "map_of (sightings st) slot = Some dep" by simp
  from walk_failures[of lib registry fuel deps] w
  have p: "post (failuresAmong lib registry {None})
             (\<lambda>err. failuresAmong lib registry {None, Some err}) (out, st)" by simp
  have "out = Threw err"
  proof (cases out)
    case Returned
    with p failuresAmong_sighted[OF _ s] assms(2) show ?thesis by fastforce
  next
    case (Threw e)
    with p have "failuresAmong lib registry {None, Some e} st" by simp
    from failuresAmong_sighted[OF this s] assms(2) Threw show ?thesis by simp
  next
    case OutOfFuel
    with p failuresAmong_sighted[OF _ s] assms(2) show ?thesis by fastforce
  qed
  with w show ?thesis by simp
qed

subsection \<open>Requests to the registry\<close>

lemma distinct_count_le_1: "distinct xs \<Longrightarrow> count_list xs x \<le> 1"
  by (induction xs) auto

lemma requestsOnce_fresh:
  "requestsOnce st \<Longrightarrow> map_of (packageInfoCache st) nm = None \<Longrightarrow>
   nm \<notin> set (registryRequests st)"
  by (auto simp: requestsOnce_def map_of_eq_None_iff)

lemma getCachedPackageInfo_requestsOnce:
  assumes inv: "requestsOnce st" and g: "getCachedPackageInfo registry nm st = (g, st2)"
  shows "distinct (registryRequests st2) \<and> (\<forall>info. g = Inr info \<longrightarrow> requestsOnce st2)"
proof (cases "map_of (packageInfoCache st) nm")
  case (Some info)
  from getCachedPackageInfo_hit[OF Some, of registry] g inv show ?thesis
    by (auto simp: requestsOnce_def)
next
  case None
  from getCachedPackageInfo_miss[OF None g] requestsOnce_fresh[OF inv None] inv show ?thesis
    by (auto simp: requestsOnce_def dom_update split: sum.splits)
qed

lemma getCachedPackageInfo_v1_requestsOnce:
  assumes inv: "requestsOnce st" and g: "getCachedPackageInfo_v1 registry nm st = (g, st2)"
  shows "distinct (registryRequests st2) \<and> (\<forall>info. g = Inr info \<longrightarrow> requestsOnce st2)"
proof (cases "map_of (packageInfoCache st) nm")
  case (Some info)
  with g inv show ?thesis
    by (auto simp: getCachedPackageInfo_v1_def requestsOnce_def)
next
  case None
  with g requestsOnce_fresh[OF inv None] inv show ?thesis
    by (auto simp: getCachedPackageInfo_v1_def Let_def requestsOnce_def dom_update
             split: FetchResult.splits if_splits)
qed

lemma getCachedPackageInfo_v3_requestsOnce:
  assumes inv: "requestsOnce st" and g: "getCachedPackageInfo_v3 writable registry nm st = (g, st2)"
  shows "distinct (registryRequests st2) \<and> (\<forall>info. g = Inr info \<longrightarrow> requestsOnce st2)"
proof (cases "map_of (packageInfoCache st) nm")
  case (Some info)
  with g inv show ?thesis
    by (auto simp: getCachedPackageInfo_v3_def requestsOnce_def)
next
  case None
  with g requestsOnce_fresh[OF inv None] inv show ?thesis
    by (auto simp: getCachedPackageInfo_v3_def Let_def requestsOnce_def dom_update
             split: FetchResult.splits if_splits)
qed

text \<open>
  A resolving block keeps the invariant when it consists of one call of a fetch that keeps
  it, on the state with the new slot, and then leaves requests and cache alone.
\<close>

lemma requestsOnce_stepsI:
  assumes shape: "\<And>dep parentDir st r st'. resolve dep parentDir st = (r, st') \<Longrightarrow>
      \<exists>g st2. fetch (dep_name dep)
                 (st\<lparr>dependencyMap :=
                    AList.update (depKeyOf parentDir (dep_name dep))
                      \<lparr>pending_name = dep_name dep, versionRange = Some (dep_version dep),
                       pending_parentDirectory = parentDir\<rparr>
                      (dependencyMap st)\<rparr>) = (g, st2)
            \<and> registryRequests st' = registryRequests st2
            \<and> packageInfoCache st' = packageInfoCache st2
            \<and> (\<forall>err. g = Inl err \<longrightarrow> r = Inl err)"
    and fetch: "\<And>nm st g st2. requestsOnce st \<Longrightarrow> fetch nm st = (g, st2) \<Longrightarrow>
      distinct (registryRequests st2) \<and> (\<forall>info. g = Inr info \<longrightarrow> requestsOnce st2)"
  shows "stepsPreserve resolve lib requestsOnce (\<lambda>err st. distinct (registryRequests st))"
  unfolding stepsPreserve_def
proof (intro conjI allI impI)
  fix dep :: Dependency and parentDir and st :: "'a PlannerState_scheme" and existing
  assume "requestsOnce st"
  then show "requestsOnce (mergeVersionRanges lib (depKeyOf parentDir (dep_name dep)) existing dep
             (recordSighting (depKeyOf parentDir (dep_name dep)) dep st))"
    by (simp add: requestsOnce_def mergeVersionRanges_def recordSighting_def)
next
  fix dep :: Dependency and parentDir and st :: "'a PlannerState_scheme" and r st'
  let ?st0 = "recordSighting (depKeyOf parentDir (dep_name dep)) dep st"
  let ?st1 = "?st0\<lparr>dependencyMap :=
                      AList.update (depKeyOf parentDir (dep_name dep))
                        \<lparr>pending_name = dep_name dep, versionRange = Some (dep_version dep),
                         pending_parentDirectory = parentDir\<rparr>
                        (dependencyMap ?st0)\<rparr>"
  assume inv: "requestsOnce st"
    and res: "resolve dep parentDir ?st0 = (r, st')"
  from shape[OF res] obtain g st2 where
    g: "fetch (dep_name dep) ?st1 = (g, st2)"
    and same: "registryRequests st' = registryRequests st2"
              "packageInfoCache st' = packageInfoCache st2"
    and rg: "\<forall>err. g = Inl err \<longrightarrow> r = Inl err"
    by blast
  have inv1: "requestsOnce ?st1" using inv by (simp add: requestsOnce_def recordSighting_def)
  note st2 = fetch[OF inv1 g]
  show "case r of Inl err \<Rightarrow> distinct (registryRequests st') | Inr childDeps \<Rightarrow> requestsOnce st'"
  proof (cases r)
    case (Inl err)
    with st2 same show ?thesis by simp
  next
    case (Inr childDeps)
    with rg obtain info where "g = Inr info" by (cases g) auto
    with st2 same Inr show ?thesis by (auto simp: requestsOnce_def)
  qed
qed

lemma resolveDependency_v1_fetch:
  assumes "resolveDependency_v1 lib registry dep parentDir st = (r, st')"
  shows "\<exists>g st2. getCachedPackageInfo_v1 registry (dep_name dep)
                 (st\<lparr>dependencyMap :=
                    AList.update (depKeyOf parentDir (dep_name dep))
                      \<lparr>pending_name = dep_name dep, versionRange = Some (dep_version dep),
                       pending_parentDirectory = parentDir\<rparr>
                      (dependencyMap st)\<rparr>) = (g, st2)
            \<and> registryRequests st' = registryRequests st2
            \<and> packageInfoCache st' = packageInfoCache st2
            \<and> (\<forall>err. g = Inl err \<longrightarrow> r = Inl err)"
  using assms
  by (auto simp: resolveDependency_v1_def Let_def split: prod.splits sum.splits option.splits)

lemma resolveDependency_v3_fetch:
  assumes "resolveDependency_v3 writable lib registry dep parentDir st = (r, st')"
  shows "\<exists>g st2. getCachedPackageInfo_v3 writable registry (dep_name dep)
                 (st\<lparr>dependencyMap :=
                    AList.update (depKeyOf parentDir (dep_name dep))
                      \<lparr>pending_name = dep_name dep, versionRange = Some (dep_version dep),
                       pending_parentDirectory = parentDir\<rparr>
                      (dependencyMap st)\<rparr>) = (g, st2)
            \<and> registryRequests st' = registryRequests st2
            \<and> packageInfoCache st' = packageInfoCache st2
            \<and> (\<forall>err. g = Inl err \<longrightarrow> r = Inl err)"
  using assms
  by (auto simp: resolveDependency_v3_def Let_def split: prod.splits sum.splits option.splits)

lemma resolveDependency_fetch:
  assumes "resolveDependency lib registry dep parentDir st = (r, st')"
  shows "\<exists>g st2. getCachedPackageInfo registry (dep_name dep)
                 (st\<lparr>dependencyMap :=
                    AList.update (depKeyOf parentDir (dep_name dep))
                      \<lparr>pending_name = dep_name dep, versionRange = Some (dep_version dep),
                       pending_parentDirectory = parentDir\<rparr>
                      (dependencyMap st)\<rparr>) = (g, st2)
            \<and> registryRequests st' = registryRequests st2
            \<and> packageInfoCache st' = packageInfoCache st2
            \<and> (\<forall>err. g = Inl err \<longrightarrow> r = Inl err)"
  using resolveDependency_cache[OF assms] by fastforce

lemma run_requests_distinct:
  "distinct (registryRequests (snd (runInstallationPlan fuel lib registry deps)))"
proof -
  have steps: "stepsPreserve (resolveDependency lib registry) lib requestsOnce
                 (\<lambda>err st. distinct (registryRequests st))"
    by (rule requestsOnce_stepsI[where fetch="getCachedPackageInfo registry"])
       (erule resolveDependency_fetch, erule (1) getCachedPackageInfo_requestsOnce)
  have "requestsOnce initialState" by (simp add: requestsOnce_def initialState_def)
  from processTopLevel_invariant[OF steps this, where fuel=fuel and deps=deps]
  have "distinct (registryRequests (snd (processTopLevel fuel lib registry deps initialState)))"
    by (cases "processTopLevel fuel lib registry deps initialState")
       (auto simp: post_def requestsOnce_def split: Outcome.splits)
  then show ?thesis
    by (auto simp: runInstallationPlan_def split: prod.splits Outcome.splits)
qed

lemma run_v1_requests_distinct:
  "distinct (registryRequests (snd (runInstallationPlan_v1 fuel lib registry deps)))"
proof -
  have steps: "stepsPreserve (resolveDependency_v1 lib registry) lib requestsOnce
                 (\<lambda>err st. distinct (registryRequests st))"
    by (rule requestsOnce_stepsI[where fetch="getCachedPackageInfo_v1 registry"])
       (erule resolveDependency_v1_fetch, erule (1) getCachedPackageInfo_v1_requestsOnce)
  have "requestsOnce initialState_v1" by (simp add: requestsOnce_def initialState_v1_def)
  from processTopLevel_v1_invariant[OF steps this, where fuel=fuel and deps=deps]
  show ?thesis
    unfolding runInstallationPlan_v1_def
    by (cases "processTopLevel_v1 fuel lib registry deps initialState_v1")
       (auto simp: post_def requestsOnce_def split: Outcome.splits)
qed

lemma run_v3_requests_distinct:
  "distinct (registryRequests (snd (runInstallationPlan_v3 fuel writable file lib registry deps)))"
proof -
  have steps: "stepsPreserve (resolveDependency_v3 writable lib registry) lib requestsOnce
                 (\<lambda>err st. distinct (registryRequests st))"
    by (rule requestsOnce_stepsI[where fetch="getCachedPackageInfo_v3 writable registry"])
       (erule resolveDependency_v3_fetch, erule (1) getCachedPackageInfo_v3_requestsOnce)
  have "requestsOnce (initialState_v3 file)" by (simp add: requestsOnce_def initialState_v3_def)
  from processTopLevel_v3_invariant[OF steps this, where fuel=fuel and deps=deps]
  show ?thesis
    unfolding runInstallationPlan_v3_def
    by (cases "processTopLevel_v3 fuel writable lib registry deps (initialState_v3 file)")
       (auto simp: post_def requestsOnce_def split: Outcome.splits)
qed

section \<open>The claims\<close>

text \<open>
  C1, as the spec states it: every entry of the returned plan, those of the hoisting pass
  included, would satisfy the range recorded at the first sighting of its slot. With
  top-level dependencies \<open>c\<close> at \<open>^2.0.0\<close> and \<open>b\<close> at \<open>^1.0.0\<close>, where \<open>b\<close> depends on \<open>c\<close>
  at \<open>^1.0.0\<close>, the hoisting pass appends \<open>c\<close> 1.0.0 at \<open>root\<close>; the slot of \<open>root\<close> and \<open>c\<close>
  was first sighted with \<open>^2.0.0\<close>, which 1.0.0 does not satisfy.
\<close>

theorem hoisted_entry_violates_root_range:
  "constructInstallationPlan 5 demoLibraries demoRegistry [(''c'', ''^2.0.0''), (''b'', ''^1.0.0'')] =
     Some (Inr [\<lparr>name = ''c'', version = Some ''2.0.0'', parentDirectory = None\<rparr>,
                \<lparr>name = ''b'', version = Some ''1.0.0'', parentDirectory = None\<rparr>,
                \<lparr>name = ''c'', version = Some ''1.0.0'', parentDirectory = Some ''b''\<rparr>,
                \<lparr>name = ''c'', version = Some ''2.0.0'', parentDirectory = Some ''root''\<rparr>,
                \<lparr>name = ''b'', version = Some ''1.0.0'', parentDirectory = Some ''root''\<rparr>,
                \<lparr>name = ''c'', version = Some ''1.0.0'', parentDirectory = Some ''root''\<rparr>])
   \<and> map_of (sightings (snd (runInstallationPlan 5 demoLibraries demoRegistry
          [(''c'', ''^2.0.0''), (''b'', ''^1.0.0'')]))) (depKeyOf (Some ''root'') ''c'') =
       Some \<lparr>dep_name = ''c'', dep_version = ''^2.0.0''\<rparr>
   \<and> \<not> satisfiesFirstRange demoLibraries
         (sightings (snd (runInstallationPlan 5 demoLibraries demoRegistry
            [(''c'', ''^2.0.0''), (''b'', ''^1.0.0'')])))
         \<lparr>name = ''c'', version = Some ''1.0.0'', parentDirectory = Some ''root''\<rparr>"
  by code_simp

text \<open>
  C1, amended. When \<^verbatim>\<open>constructInstallationPlan\<close> succeeds, the returned plan is the plan
  of the walk followed by the entries of the hoisting pass. Every entry of the walk has a
  resolved version that satisfies the range declared at the first sighting of its slot.
  Every entry of the hoisting pass is the root entry read from the ledger key of some
  entry of the walk; it need not satisfy the range of the root slot.
\<close>

theorem walk_entries_satisfy_first_range:
  "constructInstallationPlan fuel lib registry deps = Some (Inr plan) \<Longrightarrow>
   (\<exists>hoisted.
      plan = installationPlan (snd (processTopLevel fuel lib registry deps initialState)) @ hoisted
      \<and> set hoisted \<subseteq> (\<lambda>item. rootItemOf (ledgerKeyOf item)) `
            set (installationPlan (snd (processTopLevel fuel lib registry deps initialState))))
   \<and> (\<forall>item\<in>set (installationPlan (snd (processTopLevel fuel lib registry deps initialState))).
         satisfiesFirstRange lib
           (sightings (snd (processTopLevel fuel lib registry deps initialState))) item)"
proof -
  assume ok: "constructInstallationPlan fuel lib registry deps = Some (Inr plan)"
  obtain out st where walk: "processTopLevel fuel lib registry deps initialState = (out, st)"
    by (cases "processTopLevel fuel lib registry deps initialState") auto
  from ok walk have plan: "plan = hoistingPass (versionUsageCount st) (installationPlan st)"
    by (auto simp: constructInstallationPlan_def runInstallationPlan_def split: Outcome.splits)
  from walk_rangesSatisfied[of lib fuel registry deps] walk
  have inv: "rangesSatisfied lib st" by simp
  from hoistVersions_append[of "installationPlan st" "map fst (versionUsageCount st)"]
  obtain hoisted where h: "hoistingPass (versionUsageCount st) (installationPlan st)
        = installationPlan st @ hoisted"
      "set hoisted \<subseteq> rootItemOf ` set (map fst (versionUsageCount st))"
    by (auto simp: hoistingPass_def)
  from inv have "rootItemOf ` fst ` set (versionUsageCount st)
        \<subseteq> rootItemOf ` ledgerKeyOf ` set (installationPlan st)"
    unfolding rangesSatisfied_def by (intro image_mono) simp
  with h(2) have "set hoisted \<subseteq> (\<lambda>item. rootItemOf (ledgerKeyOf item)) ` set (installationPlan st)"
    by (simp add: image_image)
  with h(1) plan inv walk show ?thesis by (auto simp: rangesSatisfied_def)
qed

theorem walk_entries_satisfy_first_range_witness:
  "constructInstallationPlan 5 demoLibraries demoRegistry [(''c'', ''^2.0.0''), (''b'', ''^1.0.0'')] =
     Some (Inr [\<lparr>name = ''c'', version = Some ''2.0.0'', parentDirectory = None\<rparr>,
                \<lparr>name = ''b'', version = Some ''1.0.0'', parentDirectory = None\<rparr>,
                \<lparr>name = ''c'', version = Some ''1.0.0'', parentDirectory = Some ''b''\<rparr>,
                \<lparr>name = ''c'', version = Some ''2.0.0'', parentDirectory = Some ''root''\<rparr>,
                \<lparr>name = ''b'', version = Some ''1.0.0'', parentDirectory = Some ''root''\<rparr>,
                \<lparr>name = ''c'', version = Some ''1.0.0'', parentDirectory = Some ''root''\<rparr>])
   \<and> satisfiesFirstRange demoLibraries
         (sightings (snd (processTopLevel 5 demoLibraries demoRegistry
            [(''c'', ''^2.0.0''), (''b'', ''^1.0.0'')] initialState)))
         \<lparr>name = ''c'', version = Some ''2.0.0'', parentDirectory = None\<rparr>
   \<and> satisfiesFirstRange demoLibraries
         (sightings (snd (processTopLevel 5 demoLibraries demoRegistry
            [(''c'', ''^2.0.0''), (''b'', ''^1.0.0'')] initialState)))
         \<lparr>name = ''c'', version = Some ''1.0.0'', parentDirectory = Some ''b''\<rparr>"
proof -
  note t = conjunct2[OF walk_entries_satisfy_first_range[OF demo_plan_c_b]]
  have m1: "\<lparr>name = ''c'', version = Some ''2.0.0'', parentDirectory = None\<rparr>
      \<in> set (installationPlan (snd (processTopLevel 5 demoLibraries demoRegistry
            [(''c'', ''^2.0.0''), (''b'', ''^1.0.0'')] initialState)))"
    unfolding demo_walk_c_b by simp
  have m2: "\<lparr>name = ''c'', version = Some ''1.0.0'', parentDirectory = Some ''b''\<rparr>
      \<in> set (installationPlan (snd (processTopLevel 5 demoLibraries demoRegistry
            [(''c'', ''^2.0.0''), (''b'', ''^1.0.0'')] initialState)))"
    unfolding demo_walk_c_b by simp
  show ?thesis
    by (intro conjI demo_plan_c_b bspec[OF t m1] bspec[OF t m2])
qed

text \<open>
  C2 (scenario 1). With top-level dependencies \<open>{a: ^1.0.0}\<close> and versions 1.0.0, 1.2.0 and
  2.0.0 of \<open>a\<close> in the registry, none with dependencies, the spec expects a plan of the
  single entry \<open>a\<close> 1.2.0 with undefined parent directory. The code returns two entries:
  the hoisting loop compares \<^verbatim>\<open>item.parentDirectory\<close> with the text \<^verbatim>\<open>root\<close>, which the
  entry of a top-level dependency never carries, and appends \<open>a\<close> 1.2.0 again at \<open>root\<close>.
\<close>

theorem scenario1_appends_root_duplicate:
  "constructInstallationPlan fuel demoLibraries demoRegistry [(''a'', ''^1.0.0'')] =
     Some (Inr [\<lparr>name = ''a'', version = Some ''1.2.0'', parentDirectory = None\<rparr>,
                \<lparr>name = ''a'', version = Some ''1.2.0'', parentDirectory = Some ''root''\<rparr>])"
  by (simp add: constructInstallationPlan_def runInstallationPlan_def processDependency.simps
        initialState_def recordSighting_def resolveDependency_def getCachedPackageInfo_def
        demoRegistry_a depKeyOf_def orRoot_def Let_def relevantData_def plainVersion_def
        resolveVersion_def maxSatisfying_def maxSatisfyingStep_def demoLibraries_def
        trackVersionUsage_def hoistingPass_def hoistVersion_def)

text \<open>
  C3. In every run of \<^verbatim>\<open>constructInstallationPlan\<close>, in each of the three revisions and
  however the run ends, each package name is requested from the registry at most once. A
  request for a name that the cache holds is answered from the cache and leaves the state
  (so also the list of requests) as it was, and a call that returns metadata leaves that
  metadata in the cache.
\<close>

theorem registry_requested_once:
  "count_list (registryRequests (snd (runInstallationPlan fuel lib registry deps))) packageName \<le> 1
   \<and> count_list (registryRequests (snd (runInstallationPlan_v1 fuel lib registry deps)))
        packageName \<le> 1
   \<and> count_list (registryRequests (snd (runInstallationPlan_v3 fuel writable file lib registry deps)))
        packageName \<le> 1
   \<and> (map_of (packageInfoCache st) packageName = Some info \<longrightarrow>
        getCachedPackageInfo registry packageName st = (Inr info, st)
        \<and> getCachedPackageInfo_v1 registry packageName st = (Inr info, st))
   \<and> (map_of (packageInfoCache pst) packageName = Some info \<longrightarrow>
        getCachedPackageInfo_v3 writable registry packageName pst = (Inr info, pst))
   \<and> (getCachedPackageInfo registry packageName st = (Inr info, st') \<longrightarrow>
        map_of (packageInfoCache st') packageName = Some info)"
proof (intro conjI impI)
  show "count_list (registryRequests (snd (runInstallationPlan fuel lib registry deps))) packageName \<le> 1"
    by (rule distinct_count_le_1[OF run_requests_distinct])
  show "count_list (registryRequests (snd (runInstallationPlan_v1 fuel lib registry deps)))
          packageName \<le> 1"
    by (rule distinct_count_le_1[OF run_v1_requests_distinct])
  show "count_list (registryRequests (snd (runInstallationPlan_v3 fuel writable file lib registry deps)))
          packageName \<le> 1"
    by (rule distinct_count_le_1[OF run_v3_requests_distinct])
  show "getCachedPackageInfo registry packageName st = (Inr info, st)"
    if "map_of (packageInfoCache st) packageName = Some info"
    using that by (rule getCachedPackageInfo_hit)
  show "getCachedPackageInfo_v1 registry packageName st = (Inr info, st)"
    if "map_of (packageInfoCache st) packageName = Some info"
    using that by (simp add: getCachedPackageInfo_v1_def)
  show "getCachedPackageInfo_v3 writable registry packageName pst = (Inr info, pst)"
    if "map_of (packageInfoCache pst) packageName = Some info"
    using that by (simp add: getCachedPackageInfo_v3_def)
  show "map_of (packageInfoCache st') packageName = Some info"
    if "getCachedPackageInfo registry packageName st = (Inr info, st')"
    using that
    by (auto simp: getCachedPackageInfo_def Let_def update_conv'
             split: option.splits FetchResult.splits if_splits)
qed

theorem registry_requested_once_witness:
  "registryRequests (snd (runInstallationPlan 5 demoLibraries demoRegistry
      [(''c'', ''^2.0.0''), (''b'', ''^1.0.0'')])) = [''c'', ''b'']
   \<and> count_list (registryRequests (snd (runInstallationPlan 5 demoLibraries demoRegistry
        [(''c'', ''^2.0.0''), (''b'', ''^1.0.0'')]))) ''c'' \<le> 1
   \<and> map_of (packageInfoCache (snd (runInstallationPlan 5 demoLibraries demoRegistry
        [(''c'', ''^2.0.0''), (''b'', ''^1.0.0'')]))) ''c'' =
       Some \<lparr>versions = [(''1.0.0'', \<lparr>dependencies = None, otherVersionFields = []\<rparr>),
                          (''2.0.0'', \<lparr>dependencies = None, otherVersionFields = []\<rparr>)],
             otherPackageFields = []\<rparr>
   \<and> getCachedPackageInfo demoRegistry ''c''
        (snd (runInstallationPlan 5 demoLibraries demoRegistry
           [(''c'', ''^2.0.0''), (''b'', ''^1.0.0'')])) =
       (Inr \<lparr>versions = [(''1.0.0'', \<lparr>dependencies = None, otherVersionFields = []\<rparr>),
                         (''2.0.0'', \<lparr>dependencies = None, otherVersionFields = []\<rparr>)],
            otherPackageFields = []\<rparr>,
        snd (runInstallationPlan 5 demoLibraries demoRegistry
           [(''c'', ''^2.0.0''), (''b'', ''^1.0.0'')]))"
  by (intro conjI demo_requests_c_b demo_cache_c
        conjunct1[OF registry_requested_once]
        conjunct1[OF mp[OF conjunct1[OF conjunct2[OF conjunct2[OF conjunct2[OF
          registry_requested_once]]]] demo_cache_c]])

text \<open>
  C4. A call of \<^verbatim>\<open>processDependency\<close> for a slot key that \<^verbatim>\<open>dependencyMap\<close> already has
  returns at once: the stored range of that slot becomes the validated text of the old
  range, \<^verbatim>\<open>||\<close> and the new range, and nothing else of the state changes (the history
  variable gains the call). No registry request, no plan entry, no ledger record, no new
  slot and no recursion into children.
\<close>

theorem repeated_sighting_only_merges:
  "map_of (dependencyMap st) (depKeyOf parentDir (dep_name dep)) = Some existing \<Longrightarrow>
   processDependency fuel lib registry dep parentDir st =
     (Returned,
      st\<lparr>dependencyMap :=
           AList.update (depKeyOf parentDir (dep_name dep))
             (existing\<lparr>versionRange :=
                semver_validRange lib
                  (rangeText (versionRange existing) @ '' || '' @ dep_version dep)\<rparr>)
             (dependencyMap st),
         sightings := sightings st @ [(depKeyOf parentDir (dep_name dep), dep)]\<rparr>)
   \<and> installationPlan (snd (processDependency fuel lib registry dep parentDir st)) = installationPlan st
   \<and> registryRequests (snd (processDependency fuel lib registry dep parentDir st)) = registryRequests st
   \<and> packageInfoCache (snd (processDependency fuel lib registry dep parentDir st)) = packageInfoCache st
   \<and> versionUsageCount (snd (processDependency fuel lib registry dep parentDir st)) = versionUsageCount st
   \<and> map fst (dependencyMap (snd (processDependency fuel lib registry dep parentDir st)))
       = map fst (dependencyMap st)"
proof -
  assume h: "map_of (dependencyMap st) (depKeyOf parentDir (dep_name dep)) = Some existing"
  let ?k = "depKeyOf parentDir (dep_name dep)"
  let ?merged = "existing\<lparr>versionRange :=
                semver_validRange lib
                  (rangeText (versionRange existing) @ '' || '' @ dep_version dep)\<rparr>"
  have eq: "processDependency fuel lib registry dep parentDir st =
     (Returned, st\<lparr>dependencyMap := AList.update ?k ?merged (dependencyMap st),
         sightings := sightings st @ [(?k, dep)]\<rparr>)"
    using h by (simp add: processDependency.simps Let_def mergeVersionRanges_def recordSighting_def)
  from h have "?k \<in> set (map fst (dependencyMap st))"
    by (metis map_of_eq_None_iff option.distinct(1) set_map)
  then have keys: "map fst (AList.update ?k ?merged (dependencyMap st)) = map fst (dependencyMap st)"
    by (simp only: update_keys if_True)
  show ?thesis
    unfolding eq using keys by simp
qed

theorem repeated_sighting_only_merges_witness:
  "map_of (dependencyMap demoSightedState) (depKeyOf None ''a'') =
     Some \<lparr>pending_name = ''a'', versionRange = Some ''^1.0.0'', pending_parentDirectory = None\<rparr>
   \<and> processDependency 3 demoLibraries demoRegistry \<lparr>dep_name = ''a'', dep_version = ''^1.0.0''\<rparr>
       None demoSightedState =
     (Returned,
      demoSightedState\<lparr>
        dependencyMap := [(''root##a'',
          \<lparr>pending_name = ''a'', versionRange = Some ''>=1.0.0 <2.0.0-0||>=1.0.0 <2.0.0-0'',
           pending_parentDirectory = None\<rparr>)],
        sightings := [(''root##a'', \<lparr>dep_name = ''a'', dep_version = ''^1.0.0''\<rparr>)]\<rparr>)"
proof -
  have h: "map_of (dependencyMap demoSightedState) (depKeyOf None (dep_name \<lparr>dep_name = ''a'', dep_version = ''^1.0.0''\<rparr>)) =
     Some \<lparr>pending_name = ''a'', versionRange = Some ''^1.0.0'', pending_parentDirectory = None\<rparr>"
    by (simp add: demoSightedState_def initialState_def depKeyOf_def orRoot_def)
  from repeated_sighting_only_merges[OF h, of 3 demoLibraries demoRegistry] h
  show ?thesis
    by (simp add: demoSightedState_def initialState_def depKeyOf_def orRoot_def
          rangeText_def demoLibraries_def)
qed

text \<open>
  C5. The spec asks that no two entries of the returned plan have the same name, version
  and install location, where an undefined parent directory and \<^verbatim>\<open>root\<close> name the same
  location. The code returns such a pair: with top-level dependencies \<open>{a: ^1.0.0}\<close> the
  plan holds \<open>a\<close> 1.2.0 with undefined parent directory and \<open>a\<close> 1.2.0 at \<open>root\<close>. The
  entries of the walk are pairwise different in name, version and install location on
  every input; the repetition comes from the hoisting loop, which compares the parent
  directory with the text \<^verbatim>\<open>root\<close> and so keeps apart only entries that differ as records.
\<close>

theorem plan_repeats_install_location:
  "constructInstallationPlan fuel demoLibraries demoRegistry [(''a'', ''^1.0.0'')] =
     Some (Inr [\<lparr>name = ''a'', version = Some ''1.2.0'', parentDirectory = None\<rparr>,
                \<lparr>name = ''a'', version = Some ''1.2.0'', parentDirectory = Some ''root''\<rparr>])
   \<and> locationTriple \<lparr>name = ''a'', version = Some ''1.2.0'', parentDirectory = None\<rparr>
       = (''a'', Some ''1.2.0'', ''root'')
   \<and> locationTriple \<lparr>name = ''a'', version = Some ''1.2.0'', parentDirectory = Some ''root''\<rparr>
       = (''a'', Some ''1.2.0'', ''root'')
   \<and> \<not> distinct (map locationTriple
           [\<lparr>name = ''a'', version = Some ''1.2.0'', parentDirectory = None\<rparr>,
            \<lparr>name = ''a'', version = Some ''1.2.0'', parentDirectory = Some ''root''\<rparr>])
   \<and> distinct (map locationTriple
         (installationPlan (snd (processTopLevel fuel lib registry deps initialState))))
   \<and> distinct (installationPlan (snd (runInstallationPlan fuel lib registry deps)))"
proof (intro conjI)
  show "constructInstallationPlan fuel demoLibraries demoRegistry [(''a'', ''^1.0.0'')] =
     Some (Inr [\<lparr>name = ''a'', version = Some ''1.2.0'', parentDirectory = None\<rparr>,
                \<lparr>name = ''a'', version = Some ''1.2.0'', parentDirectory = Some ''root''\<rparr>])"
    by (rule demo_plan_a)
  show "distinct (map locationTriple
         (installationPlan (snd (processTopLevel fuel lib registry deps initialState))))"
    by (rule walk_locations_distinct)
  show "distinct (installationPlan (snd (runInstallationPlan fuel lib registry deps)))"
    by (rule run_plan_distinct)
qed (simp_all add: locationTriple_def installLocation_def orRoot_def)

text \<open>
  C6. The hoisting pass is idempotent: run again over the same ledger and the plan of its
  first run, it appends nothing, because the first run leaves, for every key of the
  ledger, the root entry that the loop looks for in the plan.
\<close>

theorem hoistingPass_idempotent:
  "hoistingPass ledger (hoistingPass ledger plan) = hoistingPass ledger plan
   \<and> rootItemOf ` fst ` set ledger \<subseteq> set (hoistingPass ledger plan)"
proof
  have present: "rootItemOf ` set (map fst ledger) \<subseteq> set (foldl hoistVersion plan (map fst ledger))"
    by (simp add: set_hoistVersions)
  show "hoistingPass ledger (hoistingPass ledger plan) = hoistingPass ledger plan"
    unfolding hoistingPass_def by (rule hoistVersions_present[OF present])
  from present show "rootItemOf ` fst ` set ledger \<subseteq> set (hoistingPass ledger plan)"
    by (simp add: hoistingPass_def)
qed

text \<open>
  C7. Whenever a dependency that the walk visits at the first sighting of its slot fails,
  by a fetch that is not answered with status 200 or by having no version that satisfies
  its range, the walk throws the error of that dependency and
  \<^verbatim>\<open>constructInstallationPlan\<close> fails with it: the caller gets the error and no plan.
\<close>

theorem failing_dependency_aborts:
  "map_of (sightings (snd (runInstallationPlan fuel lib registry deps))) slot = Some dep \<Longrightarrow>
   nodeFailure lib registry dep = Some err \<Longrightarrow>
   fst (runInstallationPlan fuel lib registry deps) = Threw err
   \<and> constructInstallationPlan fuel lib registry deps = Some (Inl err)"
proof -
  assume s: "map_of (sightings (snd (runInstallationPlan fuel lib registry deps))) slot = Some dep"
    and f: "nodeFailure lib registry dep = Some err"
  have same: "sightings (snd (runInstallationPlan fuel lib registry deps))
      = sightings (snd (processTopLevel fuel lib registry deps initialState))"
    by (auto simp: runInstallationPlan_def split: prod.splits Outcome.splits)
  from walk_failure_throws[OF s[unfolded same] f]
  show ?thesis
    by (cases "processTopLevel fuel lib registry deps initialState")
       (auto simp: runInstallationPlan_def constructInstallationPlan_def)
qed

theorem failing_dependency_aborts_witness:
  "map_of (sightings (snd (runInstallationPlan 5 demoLibraries demoRegistry
      [(''a'', ''^1.0.0''), (''f'', ''^1.0.0'')]))) ''f##g'' =
     Some \<lparr>dep_name = ''g'', dep_version = ''^1.0.0''\<rparr>
   \<and> nodeFailure demoLibraries demoRegistry \<lparr>dep_name = ''g'', dep_version = ''^1.0.0''\<rparr>
       = Some (FetchFailed ''g'')
   \<and> constructInstallationPlan 5 demoLibraries demoRegistry
       [(''a'', ''^1.0.0''), (''f'', ''^1.0.0'')] = Some (Inl (FetchFailed ''g''))"
proof -
  have s: "map_of (sightings (snd (runInstallationPlan 5 demoLibraries demoRegistry
      [(''a'', ''^1.0.0''), (''f'', ''^1.0.0'')]))) ''f##g'' =
     Some \<lparr>dep_name = ''g'', dep_version = ''^1.0.0''\<rparr>"
    by code_simp
  have f: "nodeFailure demoLibraries demoRegistry \<lparr>dep_name = ''g'', dep_version = ''^1.0.0''\<rparr>
       = Some (FetchFailed ''g'')"
    by code_simp
  show ?thesis
    by (intro conjI s f conjunct2[OF failing_dependency_aborts[OF s f]])
qed

text \<open>
  C8, as the spec states it, for \<^verbatim>\<open>construct-plan.ts\<close>: every value stored in the cache
  after a fetch would hold only the dependencies of each version. That revision stores
  the body of the response as it came: for package \<open>a\<close> the description stays in the cache.
\<close>

theorem v1_caches_whole_response:
  "map_of (packageInfoCache (snd (getCachedPackageInfo_v1 demoRegistry ''a'' initialState_v1))) ''a'' =
     Some \<lparr>versions = [plainVersion ''1.0.0'' None, plainVersion ''1.2.0'' None,
                        plainVersion ''2.0.0'' None],
           otherPackageFields = [(''description'', ''\"package a\"'')]\<rparr>
   \<and> \<not> onlyDependencies
         \<lparr>versions = [plainVersion ''1.0.0'' None, plainVersion ''1.2.0'' None,
                      plainVersion ''2.0.0'' None],
          otherPackageFields = [(''description'', ''\"package a\"'')]\<rparr>"
  by (simp add: getCachedPackageInfo_v1_def initialState_v1_def demoRegistry_a Let_def
        onlyDependencies_def)

text \<open>
  C8, amended. In \<^verbatim>\<open>part_000\<close> and in \<^verbatim>\<open>construct-plan-v3.ts\<close> the value stored in the cache
  after a registry fetch (a cache miss answered with status 200) holds only the
  dependencies of each version; every other field of the response is dropped.
  \<^verbatim>\<open>part_000\<close> keeps every version of the response, in the order of the response, and every
  value in the cache of a run of \<^verbatim>\<open>part_000\<close> is of that shape. \<^verbatim>\<open>construct-plan-v3.ts\<close> keeps
  the versions whose key is not \<^verbatim>\<open>__proto__\<close>, in the order of the response and with an absent
  \<^verbatim>\<open>dependencies\<close> replaced by the empty object; a version with the key \<^verbatim>\<open>__proto__\<close> is not
  stored. \<^verbatim>\<open>construct-plan.ts\<close> stores the response unchanged.
\<close>

theorem cached_value_only_dependencies:
  "map_of (packageInfoCache st) packageName = None \<Longrightarrow>
   registry packageName = Response 200 allData \<Longrightarrow>
   map_of (packageInfoCache pst) packageName = None \<Longrightarrow>
     getCachedPackageInfo registry packageName st =
       (Inr (relevantData allData),
        st\<lparr>registryRequests := registryRequests st @ [packageName],
           packageInfoCache := AList.update packageName (relevantData allData) (packageInfoCache st)\<rparr>)
   \<and> onlyDependencies (relevantData allData)
   \<and> map (\<lambda>(v, vd). (v, dependencies vd)) (versions (relevantData allData))
       = map (\<lambda>(v, vd). (v, dependencies vd)) (versions allData)
   \<and> cacheMinimal (snd (runInstallationPlan fuel lib registry deps))
   \<and> map_of (packageInfoCache (snd (getCachedPackageInfo_v3 writable registry packageName pst)))
        packageName = Some (minimalData allData)
   \<and> fst (getCachedPackageInfo_v3 writable registry packageName pst) = Inr (minimalData allData)
   \<and> onlyDependencies (minimalData allData)
   \<and> map (\<lambda>(v, vd). (v, dependencies vd)) (versions (minimalData allData))
       = map (\<lambda>(v, vd). (v, Some (case dependencies vd of None \<Rightarrow> [] | Some ds \<Rightarrow> ds)))
           (filter (\<lambda>(v, vd). v \<noteq> ''__proto__'') (versions allData))
   \<and> getCachedPackageInfo_v1 registry packageName st =
       (Inr allData,
        st\<lparr>registryRequests := registryRequests st @ [packageName],
           packageInfoCache := AList.update packageName allData (packageInfoCache st)\<rparr>)"
  by (simp add: getCachedPackageInfo_def getCachedPackageInfo_v3_def getCachedPackageInfo_v1_def
        Let_def onlyDependencies_relevantData onlyDependencies_minimalData
        relevantData_keeps_dependencies minimalData_keeps_dependencies update_conv'
        run_cacheMinimal)

theorem cached_value_only_dependencies_witness:
  "map_of (packageInfoCache initialState) ''p'' = None
   \<and> demoRegistry ''p'' =
       Response 200
         \<lparr>versions = [plainVersion ''1.0.0'' None,
                      plainVersion ''__proto__'' (Some [(''c'', ''^1.0.0'')])],
          otherPackageFields = [(''description'', ''\"package p\"'')]\<rparr>
   \<and> map_of (packageInfoCache (initialState_v3 Missing)) ''p'' = None
   \<and> packageInfoCache (snd (getCachedPackageInfo demoRegistry ''p'' initialState)) =
       [(''p'', \<lparr>versions = [(''1.0.0'', \<lparr>dependencies = None, otherVersionFields = []\<rparr>),
                               (''__proto__'', \<lparr>dependencies = Some [(''c'', ''^1.0.0'')],
                                                otherVersionFields = []\<rparr>)],
                  otherPackageFields = []\<rparr>)]
   \<and> map_of (packageInfoCache (snd (getCachedPackageInfo_v3 True demoRegistry ''p''
         (initialState_v3 Missing)))) ''p'' =
       Some \<lparr>versions = [(''1.0.0'', \<lparr>dependencies = Some [], otherVersionFields = []\<rparr>)],
             otherPackageFields = []\<rparr>"
proof -
  have h1: "map_of (packageInfoCache initialState) ''p'' = None"
    by (simp add: initialState_def)
  have h3: "map_of (packageInfoCache (initialState_v3 Missing)) ''p'' = None"
    by (simp add: initialState_v3_def)
  note t = cached_value_only_dependencies[where registry=demoRegistry and packageName="''p''"
      and st=initialState and pst="initialState_v3 Missing" and fuel=0 and lib=demoLibraries
      and deps="[]" and writable=True, OF h1 demoRegistry_p h3]
  from t have e2: "getCachedPackageInfo demoRegistry ''p'' initialState =
       (Inr (relevantData \<lparr>versions = [plainVersion ''1.0.0'' None,
                      plainVersion ''__proto__'' (Some [(''c'', ''^1.0.0'')])],
          otherPackageFields = [(''description'', ''\"package p\"'')]\<rparr>),
        initialState\<lparr>registryRequests := registryRequests initialState @ [''p''],
           packageInfoCache := AList.update ''p'' (relevantData \<lparr>versions = [plainVersion ''1.0.0'' None,
                      plainVersion ''__proto__'' (Some [(''c'', ''^1.0.0'')])],
          otherPackageFields = [(''description'', ''\"package p\"'')]\<rparr>) (packageInfoCache initialState)\<rparr>)"
    by (rule conjunct1)
  from t have e3: "map_of (packageInfoCache (snd (getCachedPackageInfo_v3 True demoRegistry ''p''
         (initialState_v3 Missing)))) ''p'' = Some (minimalData \<lparr>versions = [plainVersion ''1.0.0'' None,
                      plainVersion ''__proto__'' (Some [(''c'', ''^1.0.0'')])],
          otherPackageFields = [(''description'', ''\"package p\"'')]\<rparr>)"
    by blast
  show ?thesis
    unfolding e2 e3 using h1 h3 demoRegistry_p
    by (simp add: initialState_def relevantData_def minimalData_def plainVersion_def)
qed

text \<open>
  C9. Let \<^verbatim>\<open>constructInstallationPlan\<close> succeed, so that the hoisting pass runs over the ledger
  of the walk. The keys of the ledger are the ledger keys of the entries of the walk: the
  name, an at sign and the resolved version. For every entry of the walk whose name has
  no at sign, the record of that entry is in the ledger, splitting its key at the at
  signs returns exactly the name and the resolved version, the hoisting loop looks for
  and, when it is missing, appends the root entry with that name and that version, and
  the returned plan holds that root entry. The resolved version has no at sign because
  \<^verbatim>\<open>semver.maxSatisfying\<close> returns a version that satisfies a range, and semver accepts no
  version with an at sign; that property of the library is the first premise.
\<close>

theorem hoisting_recovers_name_and_version:
  assumes semver: "\<forall>v r. semver_satisfies lib v r \<longrightarrow> CHR ''@'' \<notin> set v"
    and ok: "constructInstallationPlan fuel lib registry deps = Some (Inr plan)"
  shows "plan = hoistingPass
                  (versionUsageCount (snd (processTopLevel fuel lib registry deps initialState)))
                  (installationPlan (snd (processTopLevel fuel lib registry deps initialState)))
       \<and> fst ` set (versionUsageCount (snd (processTopLevel fuel lib registry deps initialState)))
           = ledgerKeyOf ` set (installationPlan (snd (processTopLevel fuel lib registry deps initialState)))
       \<and> (\<forall>item\<in>set (installationPlan (snd (processTopLevel fuel lib registry deps initialState))).
             CHR ''@'' \<notin> set (name item) \<longrightarrow>
             (\<exists>ver. version item = Some ver
                \<and> name item @ ''@'' @ ver
                     \<in> fst ` set (versionUsageCount
                                    (snd (processTopLevel fuel lib registry deps initialState)))
                \<and> splitOn CHR ''@'' (name item @ ''@'' @ ver) = (name item, [ver])
                \<and> (\<forall>p. hoistVersion p (name item @ ''@'' @ ver) =
                      (if \<lparr>name = name item, version = Some ver, parentDirectory = Some ''root''\<rparr>
                            \<in> set p
                       then p
                       else p @ [\<lparr>name = name item, version = Some ver,
                                  parentDirectory = Some ''root''\<rparr>]))
                \<and> \<lparr>name = name item, version = Some ver, parentDirectory = Some ''root''\<rparr>
                     \<in> set plan))"
proof -
  obtain out st where walk: "processTopLevel fuel lib registry deps initialState = (out, st)"
    by (cases "processTopLevel fuel lib registry deps initialState") auto
  from ok walk have plan: "plan = hoistingPass (versionUsageCount st) (installationPlan st)"
    by (auto simp: constructInstallationPlan_def runInstallationPlan_def split: Outcome.splits)
  from walk_rangesSatisfied[of lib fuel registry deps] walk
  have inv: "rangesSatisfied lib st" by simp
  then have keys: "fst ` set (versionUsageCount st) = ledgerKeyOf ` set (installationPlan st)"
    by (simp add: rangesSatisfied_def)
  have each: "\<exists>ver. version item = Some ver
       \<and> name item @ ''@'' @ ver \<in> fst ` set (versionUsageCount st)
       \<and> splitOn CHR ''@'' (name item @ ''@'' @ ver) = (name item, [ver])
       \<and> (\<forall>p. hoistVersion p (name item @ ''@'' @ ver) =
             (if \<lparr>name = name item, version = Some ver, parentDirectory = Some ''root''\<rparr> \<in> set p
              then p
              else p @ [\<lparr>name = name item, version = Some ver, parentDirectory = Some ''root''\<rparr>]))
       \<and> \<lparr>name = name item, version = Some ver, parentDirectory = Some ''root''\<rparr> \<in> set plan"
    if item: "item \<in> set (installationPlan st)" and nm: "CHR ''@'' \<notin> set (name item)" for item
  proof -
    from inv item have "satisfiesFirstRange lib (sightings st) item"
      by (simp add: rangesSatisfied_def)
    then obtain ver rng where ver: "version item = Some ver" and sat: "semver_satisfies lib ver rng"
      by (auto simp: satisfiesFirstRange_def split: option.splits)
    from semver sat have noat: "CHR ''@'' \<notin> set ver" by blast
    from item ver keys have key: "name item @ ''@'' @ ver \<in> fst ` set (versionUsageCount st)"
      by (force simp: ledgerKeyOf_def)
    have root: "rootItemOf (name item @ ''@'' @ ver) =
        \<lparr>name = name item, version = Some ver, parentDirectory = Some ''root''\<rparr>"
      using rootItemOf_key[OF nm noat] by simp
    have split: "splitOn CHR ''@'' (name item @ ''@'' @ ver) = (name item, [ver])"
      using splitOn_key[OF nm noat] by simp
    have loop: "hoistVersion p (name item @ ''@'' @ ver) =
             (if \<lparr>name = name item, version = Some ver, parentDirectory = Some ''root''\<rparr> \<in> set p
              then p
              else p @ [\<lparr>name = name item, version = Some ver, parentDirectory = Some ''root''\<rparr>])"
      for p
      unfolding hoistVersion_insert root ..
    from hoistingPass_root_entry[OF key, of "installationPlan st"] root plan
    have "\<lparr>name = name item, version = Some ver, parentDirectory = Some ''root''\<rparr> \<in> set plan"
      by simp
    with ver key split loop show ?thesis by blast
  qed
  from plan keys each walk show ?thesis by simp
qed

theorem hoisting_recovers_name_and_version_witness:
  "constructInstallationPlan 5 demoLibraries demoRegistry [(''c'', ''^2.0.0''), (''b'', ''^1.0.0'')] =
     Some (Inr [\<lparr>name = ''c'', version = Some ''2.0.0'', parentDirectory = None\<rparr>,
                \<lparr>name = ''b'', version = Some ''1.0.0'', parentDirectory = None\<rparr>,
                \<lparr>name = ''c'', version = Some ''1.0.0'', parentDirectory = Some ''b''\<rparr>,
                \<lparr>name = ''c'', version = Some ''2.0.0'', parentDirectory = Some ''root''\<rparr>,
                \<lparr>name = ''b'', version = Some ''1.0.0'', parentDirectory = Some ''root''\<rparr>,
                \<lparr>name = ''c'', version = Some ''1.0.0'', parentDirectory = Some ''root''\<rparr>])
   \<and> ''c@1.0.0'' \<in> fst ` set (versionUsageCount (snd (processTopLevel 5 demoLibraries demoRegistry
          [(''c'', ''^2.0.0''), (''b'', ''^1.0.0'')] initialState)))
   \<and> splitOn CHR ''@'' ''c@1.0.0'' = (''c'', [''1.0.0''])
   \<and> hoistVersion [] ''c@1.0.0'' =
        [\<lparr>name = ''c'', version = Some ''1.0.0'', parentDirectory = Some ''root''\<rparr>]
   \<and> \<lparr>name = ''c'', version = Some ''1.0.0'', parentDirectory = Some ''root''\<rparr>
       \<in> set [\<lparr>name = ''c'', version = Some ''2.0.0'', parentDirectory = None\<rparr>,
                \<lparr>name = ''b'', version = Some ''1.0.0'', parentDirectory = None\<rparr>,
                \<lparr>name = ''c'', version = Some ''1.0.0'', parentDirectory = Some ''b''\<rparr>,
                \<lparr>name = ''c'', version = Some ''2.0.0'', parentDirectory = Some ''root''\<rparr>,
                \<lparr>name = ''b'', version = Some ''1.0.0'', parentDirectory = Some ''root''\<rparr>,
                \<lparr>name = ''c'', version = Some ''1.0.0'', parentDirectory = Some ''root''\<rparr>]"
proof -
  have semver: "\<forall>v r. semver_satisfies demoLibraries v r \<longrightarrow> CHR ''@'' \<notin> set v"
    by (auto simp: demoLibraries_def)
  have item: "\<lparr>name = ''c'', version = Some ''1.0.0'', parentDirectory = Some ''b''\<rparr>
      \<in> set (installationPlan (snd (processTopLevel 5 demoLibraries demoRegistry
            [(''c'', ''^2.0.0''), (''b'', ''^1.0.0'')] initialState)))"
    unfolding demo_walk_c_b by simp
  note t = conjunct2[OF conjunct2[OF hoisting_recovers_name_and_version[OF semver demo_plan_c_b]]]
  from bspec[OF t item] have w:
    "''c@1.0.0'' \<in> fst ` set (versionUsageCount (snd (processTopLevel 5 demoLibraries demoRegistry
          [(''c'', ''^2.0.0''), (''b'', ''^1.0.0'')] initialState)))
     \<and> splitOn CHR ''@'' ''c@1.0.0'' = (''c'', [''1.0.0''])
     \<and> (\<forall>p. hoistVersion p ''c@1.0.0'' =
          (if \<lparr>name = ''c'', version = Some ''1.0.0'', parentDirectory = Some ''root''\<rparr> \<in> set p
           then p
           else p @ [\<lparr>name = ''c'', version = Some ''1.0.0'', parentDirectory = Some ''root''\<rparr>]))
     \<and> \<lparr>name = ''c'', version = Some ''1.0.0'', parentDirectory = Some ''root''\<rparr>
       \<in> set [\<lparr>name = ''c'', version = Some ''2.0.0'', parentDirectory = None\<rparr>,
                \<lparr>name = ''b'', version = Some ''1.0.0'', parentDirectory = None\<rparr>,
                \<lparr>name = ''c'', version = Some ''1.0.0'', parentDirectory = Some ''b''\<rparr>,
                \<lparr>name = ''c'', version = Some ''2.0.0'', parentDirectory = Some ''root''\<rparr>,
                \<lparr>name = ''b'', version = Some ''1.0.0'', parentDirectory = Some ''root''\<rparr>,
                \<lparr>name = ''c'', version = Some ''1.0.0'', parentDirectory = Some ''root''\<rparr>]"
    by simp
  from w have loop: "\<forall>p. hoistVersion p ''c@1.0.0'' =
          (if \<lparr>name = ''c'', version = Some ''1.0.0'', parentDirectory = Some ''root''\<rparr> \<in> set p
           then p
           else p @ [\<lparr>name = ''c'', version = Some ''1.0.0'', parentDirectory = Some ''root''\<rparr>])"
    by (rule conjunct1[OF conjunct2[OF conjunct2]])
  from spec[OF loop, of "[]"] have first: "hoistVersion [] ''c@1.0.0'' =
        [\<lparr>name = ''c'', version = Some ''1.0.0'', parentDirectory = Some ''root''\<rparr>]"
    by simp
  show ?thesis
    by (intro conjI demo_plan_c_b first conjunct1[OF w] conjunct1[OF conjunct2[OF w]]
          conjunct2[OF conjunct2[OF conjunct2[OF w]]])
qed

text \<open>
  C10. With no top-level dependency, \<^verbatim>\<open>constructInstallationPlan\<close> returns the empty plan
  and requests nothing from the registry, in each revision; the revision with the cache
  file neither writes the file nor changes it.
\<close>

theorem empty_dependencies_empty_plan:
  "constructInstallationPlan fuel lib registry [] = Some (Inr [])
   \<and> registryRequests (snd (runInstallationPlan fuel lib registry [])) = []
   \<and> constructInstallationPlan_v3 fuel writable file lib registry [] = Some (Inr [])
   \<and> registryRequests (snd (runInstallationPlan_v3 fuel writable file lib registry [])) = []
   \<and> cacheFileWrites (snd (runInstallationPlan_v3 fuel writable file lib registry [])) = 0
   \<and> cacheFile (snd (runInstallationPlan_v3 fuel writable file lib registry [])) = file
   \<and> constructInstallationPlan_v1 fuel lib registry [] = Some (Inr [])
   \<and> registryRequests (snd (runInstallationPlan_v1 fuel lib registry [])) = []"
  by (simp add: constructInstallationPlan_def runInstallationPlan_def initialState_def
        hoistingPass_def constructInstallationPlan_v3_def runInstallationPlan_v3_def
        initialState_v3_def constructInstallationPlan_v1_def runInstallationPlan_v1_def
        initialState_v1_def)

end
